theory Spec2Isabelle
  imports Main "HOL-Library.AList"
begin

section \<open>Values of the parsed document\<close>

text \<open>
  The runner works on the tree that the YAML loader returns: scalars, ordered sequences and
  mappings with unique keys in insertion order. A character of the model is a code point
  below 256; mapping keys are strings. Floating-point scalars are not part of the model.
\<close>

datatype pyval =
    PNone
  | PBool bool
  | PInt int
  | PStr string
  | PList "pyval list"
  | PDict "(string \<times> pyval) list"

text \<open>Python truthiness, as used by \<^verbatim>\<open>x or y\<close>, \<^verbatim>\<open>if x:\<close> and \<^verbatim>\<open>bool(x)\<close>.\<close>

fun truthy :: "pyval \<Rightarrow> bool" where
  "truthy PNone = False"
| "truthy (PBool b) = b"
| "truthy (PInt i) = (i \<noteq> 0)"
| "truthy (PStr s) = (s \<noteq> [])"
| "truthy (PList xs) = (xs \<noteq> [])"
| "truthy (PDict kvs) = (kvs \<noteq> [])"

text \<open>\<^verbatim>\<open>d.get(k)\<close> with the default \<^verbatim>\<open>None\<close>, and \<^verbatim>\<open>a or b\<close>.\<close>

definition dict_get :: "(string \<times> pyval) list \<Rightarrow> string \<Rightarrow> pyval" where
  "dict_get d k = (case map_of d k of None \<Rightarrow> PNone | Some v \<Rightarrow> v)"

definition py_or :: "pyval \<Rightarrow> pyval \<Rightarrow> pyval" where
  "py_or a b = (if truthy a then a else b)"

subsection \<open>\<^verbatim>\<open>str\<close> and \<^verbatim>\<open>repr\<close>\<close>

definition digit_char :: "nat \<Rightarrow> char" where
  "digit_char d = char_of (48 + d)"

fun dec_of_nat :: "nat \<Rightarrow> string" where
  "dec_of_nat n = (if n < 10 then [digit_char n] else dec_of_nat (n div 10) @ [digit_char (n mod 10)])"

declare dec_of_nat.simps [simp del]

definition dec_of_int :: "int \<Rightarrow> string" where
  "dec_of_int i = (if i < 0 then CHR ''-'' # dec_of_nat (nat (- i)) else dec_of_nat (nat i))"

definition hex_char :: "nat \<Rightarrow> char" where
  "hex_char d = (if d < 10 then char_of (48 + d) else char_of (87 + d))"

definition printable :: "char \<Rightarrow> bool" where
  "printable c \<longleftrightarrow>
     (let n = of_char c :: nat
      in (32 \<le> n \<and> n < 127) \<or> (161 \<le> n \<and> n \<noteq> 173))"

definition repr_char :: "char \<Rightarrow> char \<Rightarrow> string" where
  "repr_char q c =
     (if c = q \<or> c = CHR 0x5C then [CHR 0x5C, c]
      else if c = CHR 0x09 then [CHR 0x5C, CHR ''t'']
      else if c = CHR 0x0A then [CHR 0x5C, CHR ''n'']
      else if c = CHR 0x0D then [CHR 0x5C, CHR ''r'']
      else if printable c then [c]
      else [CHR 0x5C, CHR ''x'', hex_char (of_char c div 16), hex_char (of_char c mod 16)])"

definition repr_str :: "string \<Rightarrow> string" where
  "repr_str s =
     (let q = (if CHR 0x27 \<in> set s \<and> CHR 0x22 \<notin> set s then CHR 0x22 else CHR 0x27)
      in [q] @ concat (map (repr_char q) s) @ [q])"

fun join :: "string \<Rightarrow> string list \<Rightarrow> string" where
  "join sep [] = []"
| "join sep [x] = x"
| "join sep (x # y # ys) = x @ sep @ join sep (y # ys)"

fun py_repr :: "pyval \<Rightarrow> string" where
  "py_repr PNone = ''None''"
| "py_repr (PBool b) = (if b then ''True'' else ''False'')"
| "py_repr (PInt i) = dec_of_int i"
| "py_repr (PStr s) = repr_str s"
| "py_repr (PList xs) = ''['' @ join '', '' (map py_repr xs) @ '']''"
| "py_repr (PDict kvs) =
     ''{'' @ join '', '' (map (\<lambda>kv. repr_str (fst kv) @ '': '' @ py_repr (snd kv)) kvs) @ ''}''"

definition py_str :: "pyval \<Rightarrow> string" where
  "py_str v = (case v of PStr s \<Rightarrow> s | _ \<Rightarrow> py_repr v)"

section \<open>Interpolator\<close>

text \<open>
  The two patterns of \<^verbatim>\<open>VAR_PATTERNS\<close>:
  \<^verbatim>\<open>\{\{\s*([A-Za-z_][A-Za-z0-9_]*)\s*\}\}\<close> and \<^verbatim>\<open>\$\{([A-Za-z_][A-Za-z0-9_]*)\}\<close>.
  Every quantifier of both is followed by a character class disjoint from its own, so the
  regular-expression engine never backtracks into a different match: a match at a position
  is the greedy left-to-right parse. A matcher takes the text at a position and returns the
  captured name and the text after the match.
\<close>

definition is_ident_start :: "char \<Rightarrow> bool" where
  "is_ident_start c \<longleftrightarrow>
     (let n = of_char c :: nat
      in (65 \<le> n \<and> n \<le> 90) \<or> (97 \<le> n \<and> n \<le> 122) \<or> n = 95)"

definition is_ident_char :: "char \<Rightarrow> bool" where
  "is_ident_char c \<longleftrightarrow>
     is_ident_start c \<or> (let n = of_char c :: nat in 48 \<le> n \<and> n \<le> 57)"

text \<open>A name: what the group \<^verbatim>\<open>[A-Za-z_][A-Za-z0-9_]*\<close> can match as a whole.\<close>

definition is_identifier :: "string \<Rightarrow> bool" where
  "is_identifier k \<longleftrightarrow> k \<noteq> [] \<and> is_ident_start (hd k) \<and> (\<forall>c\<in>set (tl k). is_ident_char c)"

text \<open>The class \<^verbatim>\<open>\s\<close> of a \<^verbatim>\<open>str\<close> pattern, which is also what \<^verbatim>\<open>str.strip()\<close> removes.\<close>

definition is_space :: "char \<Rightarrow> bool" where
  "is_space c \<longleftrightarrow>
     (let n = of_char c :: nat
      in (9 \<le> n \<and> n \<le> 13) \<or> (28 \<le> n \<and> n \<le> 32) \<or> n = 133 \<or> n = 160)"

type_synonym matcher = "string \<Rightarrow> (string \<times> string) option"

definition match_braces :: matcher where
  "match_braces s =
     (case s of
        a # b # r \<Rightarrow>
          if a = CHR ''{'' \<and> b = CHR ''{'' then
            (case dropWhile is_space r of
               [] \<Rightarrow> None
             | c # r2 \<Rightarrow>
                 if is_ident_start c then
                   (case dropWhile is_space (dropWhile is_ident_char r2) of
                      d # e # rest \<Rightarrow>
                        if d = CHR ''}'' \<and> e = CHR ''}''
                        then Some (c # takeWhile is_ident_char r2, rest) else None
                    | _ \<Rightarrow> None)
                 else None)
          else None
      | _ \<Rightarrow> None)"

definition match_dollar :: matcher where
  "match_dollar s =
     (case s of
        a # b # c # r2 \<Rightarrow>
          if a = CHR ''$'' \<and> b = CHR ''{'' \<and> is_ident_start c then
            (case dropWhile is_ident_char r2 of
               [] \<Rightarrow> None
             | d # rest \<Rightarrow>
                 if d = CHR ''}'' then Some (c # takeWhile is_ident_char r2, rest) else None)
          else None
      | _ \<Rightarrow> None)"

text \<open>
  \<^verbatim>\<open>pat.search(out)\<close>: the leftmost position with a match, as the text before the match
  (\<^verbatim>\<open>out[:m.start()]\<close>), the captured name and the text after it (\<^verbatim>\<open>out[m.end():]\<close>).
\<close>

fun search :: "matcher \<Rightarrow> string \<Rightarrow> (string \<times> string \<times> string) option" where
  "search pat [] = None"
| "search pat (c # cs) =
     (case pat (c # cs) of
        Some (key, rest) \<Rightarrow> Some ([], key, rest)
      | None \<Rightarrow>
          (case search pat cs of
             None \<Rightarrow> None
           | Some (pre, key, rest) \<Rightarrow> Some (c # pre, key, rest)))"

text \<open>\<^verbatim>\<open>str(ctx.get(key, ""))\<close>\<close>

definition ctx_str :: "(string \<rightharpoonup> pyval) \<Rightarrow> string \<Rightarrow> string" where
  "ctx_str ctx key = (case ctx key of None \<Rightarrow> [] | Some v \<Rightarrow> py_str v)"

text \<open>
  The inner \<^verbatim>\<open>while True\<close> loop of \<^verbatim>\<open>interpolate_string\<close> for one pattern. The source
  puts no bound on it, so the model is a partial function: \<open>None\<close> is a loop that never
  leaves.
\<close>

partial_function (option) expand_pattern ::
  "matcher \<Rightarrow> (string \<rightharpoonup> pyval) \<Rightarrow> string \<Rightarrow> string option" where
  "expand_pattern pat ctx out =
     (case search pat out of
        None \<Rightarrow> Some out
      | Some (pre, key, rest) \<Rightarrow> expand_pattern pat ctx (pre @ ctx_str ctx key @ rest))"

declare expand_pattern.simps [code]

definition interpolate_string :: "string \<Rightarrow> (string \<rightharpoonup> pyval) \<Rightarrow> string option" where
  "interpolate_string s ctx =
     (case expand_pattern match_braces ctx s of
        None \<Rightarrow> None
      | Some out \<Rightarrow> expand_pattern match_dollar ctx out)"

text \<open>
  \<^verbatim>\<open>deep_interpolate\<close>: mappings keep their keys and order, sequences their order, strings
  are interpolated, everything else is returned as it is. A comprehension evaluates its
  elements from left to right and the whole call does not return when one of them does not.
\<close>

fun all_some :: "'a option list \<Rightarrow> 'a list option" where
  "all_some [] = Some []"
| "all_some (x # xs) =
     (case x of
        None \<Rightarrow> None
      | Some y \<Rightarrow> (case all_some xs of None \<Rightarrow> None | Some ys \<Rightarrow> Some (y # ys)))"

fun deep_interpolate :: "pyval \<Rightarrow> (string \<rightharpoonup> pyval) \<Rightarrow> pyval option" where
  "deep_interpolate (PDict kvs) ctx =
     map_option PDict
       (all_some (map (\<lambda>kv. map_option (Pair (fst kv)) (deep_interpolate (snd kv) ctx)) kvs))"
| "deep_interpolate (PList xs) ctx =
     map_option PList (all_some (map (\<lambda>v. deep_interpolate v ctx) xs))"
| "deep_interpolate (PStr s) ctx = map_option PStr (interpolate_string s ctx)"
| "deep_interpolate v ctx = Some v"

fun shape :: "pyval \<Rightarrow> pyval" where
  "shape (PDict kvs) = PDict (map (\<lambda>kv. (fst kv, shape (snd kv))) kvs)"
| "shape (PList xs) = PList (map shape xs)"
| "shape (PStr s) = PStr []"
| "shape v = v"

fun strings_of :: "pyval \<Rightarrow> string list" where
  "strings_of (PDict kvs) = concat (map (\<lambda>kv. strings_of (snd kv)) kvs)"
| "strings_of (PList xs) = concat (map strings_of xs)"
| "strings_of (PStr s) = [s]"
| "strings_of v = []"

definition braces :: "string \<Rightarrow> nat" where
  "braces s = length (filter (\<lambda>c. c = CHR ''{'') s)"

subsection \<open>Tokens, as the specification words them\<close>

text \<open>
  The tokens in the words of the specification, stated to compare the matchers and the
  loops with. \<open>braces_token tok key\<close> says that the text \<open>tok\<close> is a \<^verbatim>\<open>{{NAME}}\<close> token of the
  name \<open>key\<close>, with optional white space around the name, and \<open>dollar_token tok key\<close> that
  it is the \<^verbatim>\<open>${NAME}\<close> token of the name. A string has a token when a token is a part of it.
  \<open>replaces token ctx s s'\<close> says that \<open>s'\<close> is \<open>s\<close> with its leftmost token replaced by the
  \<^verbatim>\<open>str\<close> of the value the context has for the name of the token, or by nothing when the
  context has no such name.
\<close>

definition braces_token :: "string \<Rightarrow> string \<Rightarrow> bool" where
  "braces_token tok key \<longleftrightarrow>
     (\<exists>ws1 ws2. tok = ''{{'' @ ws1 @ key @ ws2 @ ''}}''
        \<and> (\<forall>c\<in>set (ws1 @ ws2). is_space c) \<and> is_identifier key)"

definition dollar_token :: "string \<Rightarrow> string \<Rightarrow> bool" where
  "dollar_token tok key \<longleftrightarrow> tok = ''${'' @ key @ ''}'' \<and> is_identifier key"

definition has_token :: "(string \<Rightarrow> string \<Rightarrow> bool) \<Rightarrow> string \<Rightarrow> bool" where
  "has_token token s \<longleftrightarrow> (\<exists>pre tok key rest. s = pre @ tok @ rest \<and> token tok key)"

definition replaces ::
  "(string \<Rightarrow> string \<Rightarrow> bool) \<Rightarrow> (string \<rightharpoonup> pyval) \<Rightarrow> string \<Rightarrow> string \<Rightarrow> bool" where
  "replaces token ctx s s' \<longleftrightarrow>
     (\<exists>pre tok key rest.
        s = pre @ tok @ rest \<and> token tok key
        \<and> (\<forall>pre' tok' key' rest'. s = pre' @ tok' @ rest' \<and> token tok' key' \<longrightarrow> length pre \<le> length pre')
        \<and> s' = pre @ ctx_str ctx key @ rest)"
section \<open>Errors, the world and the hooks\<close>

text \<open>
  Every exception the runner can raise is a value. \<open>CalledProcessError\<close> carries the return
  code and the command, \<open>SystemExitRepo\<close> is
  \<^verbatim>\<open>SystemExit(f"repo resolution error: {e}")\<close> with the exception it wraps, and
  \<open>OSError\<close> stands for the errors of the file system and of process creation. The two
  \<open>Unicode\<close> errors are those of reading and writing a text file, and \<open>IndexError\<close>,
  \<open>TypeError\<close> and \<open>ValueError\<close> are also what \<^verbatim>\<open>subprocess.run\<close> raises for arguments it does
  not accept.
\<close>

datatype error =
    SystemExit string
  | SystemExitRepo error
  | ValueError string
  | CalledProcessError int pyval
  | TypeError
  | AttributeError
  | KeyError string
  | OSError
  | IndexError
  | UnicodeDecodeError
  | UnicodeEncodeError

type_synonym path = "string list"

text \<open>A regular file holds bytes, a \<open>char\<close> each.\<close>

datatype node = File string | Dir

text \<open>One line of the runner's own output: the \<^verbatim>\<open>print\<close> call and the values it formats.\<close>

datatype message =
    Banner pyval
  | DryRunWriteFile pyval
  | DryRunCloneRepos path nat
  | DryRunPostArgv pyval
  | DryRunPostShell pyval
  | DryRunRun pyval
  | NoOpStep
  | RunItemFailed error
  | ContinueOnError
  | CloneFailed error
  | PostInstallFailed pyval error
  | SkipClone path
  | Cloning pyval path
  | AllStepsComplete

text \<open>
  What can be observed of a run, in order: printed lines, and the requests to the operating
  system to start a process, each with the arguments \<^verbatim>\<open>subprocess.run\<close> was called with. A call
  whose arguments \<^verbatim>\<open>subprocess.run\<close> does not accept raises before the operating system is asked
  and leaves no event.
\<close>

datatype event =
    Print message
  | Spawn pyval pyval "(string \<times> string) list option"

text \<open>
  The state the runner acts on: the file system (a path is its list of components from the
  root, which is always a directory), the permission bits set by \<^verbatim>\<open>chmod\<close>, the process
  environment \<^verbatim>\<open>os.environ\<close> and the events so far.
\<close>

record world =
  nodes :: "path \<rightharpoonup> node"
  modes :: "path \<rightharpoonup> nat"
  environ :: "(string \<times> string) list"
  trace :: "event list"

datatype proc_result = Exited int | NotStarted

text \<open>
  What the runner takes from its platform and does not compute itself:
  \<^item> \<open>to_path env s\<close> is \<^verbatim>\<open>Path(s).expanduser()\<close> under the environment \<open>env\<close>,
    \<open>resolve\<close> is \<^verbatim>\<open>Path.resolve\<close>, \<open>join_path d s\<close> is \<^verbatim>\<open>d / s\<close>, \<open>path_str\<close> is \<^verbatim>\<open>str\<close> of a
    path and \<open>url_stem\<close> is \<^verbatim>\<open>Path(s).stem\<close>;
  \<^item> \<open>chmod_mode p m\<close> is the outcome of \<^verbatim>\<open>os.chmod(p, int(m, 8))\<close>: the bits that were set,
    or \<open>None\<close> when the conversion or the call raises;
  \<^item> \<open>spawn argv cwd env\<close> is what the operating system does when it is asked for the
    process of \<^verbatim>\<open>subprocess.run(argv, cwd=cwd, env=env)\<close>: how the process ends, or that it
    could not be started, and what is left in the file system;
  \<^item> \<open>sysname\<close>, \<open>distro_id\<close> and \<open>distro_like\<close> are \<^verbatim>\<open>platform.system()\<close>, \<^verbatim>\<open>distro.id()\<close> and
    \<^verbatim>\<open>distro.like()\<close>, already in lower case.
\<close>

record platform =
  to_path :: "(string \<times> string) list \<Rightarrow> string \<Rightarrow> path"
  resolve :: "path \<Rightarrow> path"
  join_path :: "path \<Rightarrow> string \<Rightarrow> path"
  path_str :: "path \<Rightarrow> string"
  url_stem :: "string \<Rightarrow> string"
  chmod_mode :: "path \<Rightarrow> string \<Rightarrow> nat option"
  spawn :: "pyval \<Rightarrow> pyval \<Rightarrow> (string \<times> string) list option \<Rightarrow> (path \<rightharpoonup> node)
            \<Rightarrow> proc_result \<times> (path \<rightharpoonup> node)"
  sysname :: string
  distro_id :: string
  distro_like :: string

subsection \<open>Sequencing effects that may raise\<close>

type_synonym 'a io = "world \<Rightarrow> (error + 'a) \<times> world"

definition io_return :: "'a \<Rightarrow> 'a io" where
  "io_return x w = (Inr x, w)"

definition io_raise :: "error \<Rightarrow> 'a io" where
  "io_raise e w = (Inl e, w)"

definition io_bind :: "'a io \<Rightarrow> ('a \<Rightarrow> 'b io) \<Rightarrow> 'b io" where
  "io_bind m f w = (case m w of (Inl e, w') \<Rightarrow> (Inl e, w') | (Inr x, w') \<Rightarrow> f x w')"

definition io_lift :: "error + 'a \<Rightarrow> 'a io" where
  "io_lift r w = (r, w)"

definition io_print :: "message \<Rightarrow> unit io" where
  "io_print m w = (Inr (), w\<lparr>trace := trace w @ [Print m]\<rparr>)"

text \<open>\<^verbatim>\<open>try: ... except subprocess.CalledProcessError as e: ...\<close>\<close>

definition io_except_cpe :: "'a io \<Rightarrow> (error \<Rightarrow> 'a io) \<Rightarrow> 'a io" where
  "io_except_cpe m h w =
     (case m w of
        (Inl (CalledProcessError rc cmd), w') \<Rightarrow> h (CalledProcessError rc cmd) w'
      | r \<Rightarrow> r)"

subsection \<open>File system\<close>

definition path_exists :: "world \<Rightarrow> path \<Rightarrow> bool" where
  "path_exists w p \<longleftrightarrow> p = [] \<or> nodes w p \<noteq> None"

text \<open>The directories \<^verbatim>\<open>mkdir(parents=True, exist_ok=True)\<close> visits for \<open>p\<close>, outermost first.\<close>

definition ancestors_and_self :: "path \<Rightarrow> path list" where
  "ancestors_and_self p = map (\<lambda>n. take n p) [1..<Suc (length p)]"

fun mkdir_each :: "path list \<Rightarrow> (path \<rightharpoonup> node) \<Rightarrow> error + (path \<rightharpoonup> node)" where
  "mkdir_each [] ns = Inr ns"
| "mkdir_each (d # ds) ns =
     (case ns d of
        Some (File c) \<Rightarrow> Inl OSError
      | Some Dir \<Rightarrow> mkdir_each ds ns
      | None \<Rightarrow> mkdir_each ds (ns(d \<mapsto> Dir)))"

definition mkdir_parents :: "path \<Rightarrow> unit io" where
  "mkdir_parents p w =
     (case mkdir_each (ancestors_and_self p) (nodes w) of
        Inl e \<Rightarrow> (Inl e, w)
      | Inr ns \<Rightarrow> (Inr (), w\<lparr>nodes := ns\<rparr>))"

definition ensure_parent :: "path \<Rightarrow> unit io" where
  "ensure_parent p = mkdir_parents (butlast p)"

subsection \<open>Text files\<close>

text \<open>
  \<^verbatim>\<open>Path.read_text(encoding="utf-8")\<close> and \<^verbatim>\<open>Path.write_text(data, encoding="utf-8")\<close> open the
  file in text mode. The text read or written is a list of code points; a string of the
  document is the list of the code points of its characters.
\<close>

definition code_points :: "string \<Rightarrow> nat list" where
  "code_points s = map of_char s"

text \<open>
  The strict UTF-8 decoder: one to four bytes for a code point, no longer form than needed,
  no surrogate and nothing above \<^verbatim>\<open>U+10FFFF\<close>. \<open>None\<close> is \<^verbatim>\<open>UnicodeDecodeError\<close>.
\<close>

definition continuation :: "char \<Rightarrow> bool" where
  "continuation b \<longleftrightarrow> 0x80 \<le> (of_char b :: nat) \<and> (of_char b :: nat) \<le> 0xBF"

fun utf8_decode :: "string \<Rightarrow> nat list option" where
  "utf8_decode [] = Some []"
| "utf8_decode (b # bs) =
     (let n = of_char b :: nat in
      if n < 0x80 then map_option (Cons n) (utf8_decode bs)
      else if 0xC2 \<le> n \<and> n \<le> 0xDF then
        (case bs of
           c1 # r \<Rightarrow>
             if continuation c1
             then map_option (Cons ((n - 0xC0) * 64 + (of_char c1 - 0x80))) (utf8_decode r)
             else None
         | _ \<Rightarrow> None)
      else if 0xE0 \<le> n \<and> n \<le> 0xEF then
        (case bs of
           c1 # c2 # r \<Rightarrow>
             (let cp = (n - 0xE0) * 4096 + (of_char c1 - 0x80) * 64 + (of_char c2 - 0x80) in
              if continuation c1 \<and> continuation c2 \<and> 0x800 \<le> cp \<and> \<not> (0xD800 \<le> cp \<and> cp \<le> 0xDFFF)
              then map_option (Cons cp) (utf8_decode r)
              else None)
         | _ \<Rightarrow> None)
      else if 0xF0 \<le> n \<and> n \<le> 0xF4 then
        (case bs of
           c1 # c2 # c3 # r \<Rightarrow>
             (let cp = (n - 0xF0) * 262144 + (of_char c1 - 0x80) * 4096
                       + (of_char c2 - 0x80) * 64 + (of_char c3 - 0x80) in
              if continuation c1 \<and> continuation c2 \<and> continuation c3
                 \<and> 0x10000 \<le> cp \<and> cp \<le> 0x10FFFF
              then map_option (Cons cp) (utf8_decode r)
              else None)
         | _ \<Rightarrow> None)
      else None)"

text \<open>
  The encoder, and the code points it refuses with \<^verbatim>\<open>UnicodeEncodeError\<close>: the surrogates
  \<^verbatim>\<open>U+D800\<close> to \<^verbatim>\<open>U+DFFF\<close>, which are the 2048 code points from 27 times 2048 on, and what is
  above \<^verbatim>\<open>U+10FFFF\<close>, the last code point below 17 times 65536.
\<close>

definition unencodable :: "nat \<Rightarrow> bool" where
  "unencodable cp \<longleftrightarrow> cp div 64 div 32 = 27 \<or> 16 < cp div 64 div 64 div 16"

definition utf8_encode1 :: "nat \<Rightarrow> string" where
  "utf8_encode1 cp =
     (if cp < 0x80 then [char_of cp]
      else if cp < 0x800 then [char_of (0xC0 + cp div 64), char_of (0x80 + cp mod 64)]
      else if cp < 0x10000
      then [char_of (0xE0 + cp div 4096), char_of (0x80 + cp div 64 mod 64),
            char_of (0x80 + cp mod 64)]
      else [char_of (0xF0 + cp div 262144), char_of (0x80 + cp div 4096 mod 64),
            char_of (0x80 + cp div 64 mod 64), char_of (0x80 + cp mod 64)])"

definition utf8_encode :: "nat list \<Rightarrow> string" where
  "utf8_encode t = concat (map utf8_encode1 t)"

text \<open>
  Reading in text mode turns \<^verbatim>\<open>\r\n\<close> and a \<^verbatim>\<open>\r\<close> alone into \<^verbatim>\<open>\n\<close>; writing turns \<^verbatim>\<open>\n\<close> into
  \<^verbatim>\<open>os.linesep\<close>, which is \<^verbatim>\<open>\r\n\<close> on Windows and \<^verbatim>\<open>\n\<close> elsewhere.
\<close>

fun universal_newlines :: "nat list \<Rightarrow> nat list" where
  "universal_newlines [] = []"
| "universal_newlines [c] = [if c = 13 then 10 else c]"
| "universal_newlines (c # d # cs) =
     (if c = 13 \<and> d = 10 then 10 # universal_newlines cs
      else if c = 13 then 10 # universal_newlines (d # cs)
      else c # universal_newlines (d # cs))"

definition linesep :: "platform \<Rightarrow> nat list" where
  "linesep pf = (if sysname pf = ''windows'' then [13, 10] else [10])"

definition newline_out :: "platform \<Rightarrow> nat list \<Rightarrow> nat list" where
  "newline_out pf t = concat (map (\<lambda>c. if c = 10 then linesep pf else [c]) t)"

definition read_text :: "path \<Rightarrow> nat list io" where
  "read_text p w =
     (case nodes w p of
        Some (File bs) \<Rightarrow>
          (case utf8_decode bs of
             None \<Rightarrow> (Inl UnicodeDecodeError, w)
           | Some t \<Rightarrow> (Inr (universal_newlines t), w))
      | _ \<Rightarrow> (Inl OSError, w))"

text \<open>
  Writing a text: the file is opened, which empties it, before the text is encoded and
  written.
\<close>

definition write_str :: "platform \<Rightarrow> path \<Rightarrow> nat list \<Rightarrow> unit io" where
  "write_str pf p t w =
     (if p = [] \<or> nodes w p = Some Dir \<or> nodes w (butlast p) \<noteq> Some Dir \<and> butlast p \<noteq> []
      then (Inl OSError, w)
      else if list_ex unencodable t
      then (Inl UnicodeEncodeError, w\<lparr>nodes := (nodes w)(p \<mapsto> File [])\<rparr>)
      else (Inr (), w\<lparr>nodes := (nodes w)(p \<mapsto> File (utf8_encode (newline_out pf t)))\<rparr>))"

text \<open>\<^verbatim>\<open>Path.write_text\<close> checks that its data is a \<^verbatim>\<open>str\<close> before it opens the file.\<close>

definition write_text :: "platform \<Rightarrow> path \<Rightarrow> pyval \<Rightarrow> unit io" where
  "write_text pf p data w =
     (case data of
        PStr s \<Rightarrow> write_str pf p (code_points s) w
      | _ \<Rightarrow> (Inl TypeError, w))"

text \<open>\<^verbatim>\<open>p.read_text(encoding="utf-8") + content\<close>\<close>

definition str_concat :: "nat list \<Rightarrow> pyval \<Rightarrow> error + nat list" where
  "str_concat old content =
     (case content of PStr s \<Rightarrow> Inr (old @ code_points s) | _ \<Rightarrow> Inl TypeError)"

text \<open>The \<^verbatim>\<open>try: os.chmod(...) except Exception: pass\<close> of \<^verbatim>\<open>write_file\<close>.\<close>

definition try_chmod :: "platform \<Rightarrow> path \<Rightarrow> pyval \<Rightarrow> unit io" where
  "try_chmod pf p mode w =
     (case chmod_mode pf p (py_str mode) of
        None \<Rightarrow> (Inr (), w)
      | Some bits \<Rightarrow> (Inr (), w\<lparr>modes := (modes w)(p \<mapsto> bits)\<rparr>))"

definition write_file :: "platform \<Rightarrow> pyval \<Rightarrow> pyval \<Rightarrow> pyval \<Rightarrow> bool \<Rightarrow> unit io" where
  "write_file pf path content mode append_flag w =
     (case path of
        PStr s \<Rightarrow>
          (let p = to_path pf (environ w) s in
           io_bind (ensure_parent p) (\<lambda>_.
           io_bind (\<lambda>w1.
             if append_flag \<and> path_exists w1 p
             then io_bind (read_text p) (\<lambda>old.
                  io_bind (io_lift (str_concat old content)) (write_str pf p)) w1
             else write_text pf p content w1) (\<lambda>_.
           if truthy mode then try_chmod pf p mode else io_return ())) w)
      | _ \<Rightarrow> (Inl TypeError, w))"

subsection \<open>Processes\<close>

text \<open>
  \<^verbatim>\<open>subprocess.run\<close> looks at its arguments before it asks the operating system for a
  process, and raises for those it does not accept. What follows is what the POSIX and the
  Windows implementation of CPython 3.11 do with the values a document can hold, in
  their order.
\<close>

definition has_nul :: "string \<Rightarrow> bool" where
  "has_nul s \<longleftrightarrow> CHR 0x00 \<in> set s"

text \<open>\<^verbatim>\<open>list(args)\<close>, with a string taken as the program alone.\<close>

definition popen_args :: "pyval \<Rightarrow> error + pyval list" where
  "popen_args argv =
     (case argv of
        PList xs \<Rightarrow> Inr xs
      | PStr s \<Rightarrow> Inr [PStr s]
      | PDict kvs \<Rightarrow> Inr (map (\<lambda>kv. PStr (fst kv)) kvs)
      | _ \<Rightarrow> Inl TypeError)"

text \<open>The first argument that is not a string, or has a null character, on POSIX.\<close>

fun args_error :: "pyval list \<Rightarrow> error option" where
  "args_error [] = None"
| "args_error (x # xs) =
     (case x of
        PStr s \<Rightarrow> if has_nul s then Some (ValueError ''embedded null byte'') else args_error xs
      | _ \<Rightarrow> Some TypeError)"

definition cwd_error :: "string \<Rightarrow> pyval \<Rightarrow> error option" where
  "cwd_error msg cwd =
     (case cwd of
        PNone \<Rightarrow> None
      | PStr s \<Rightarrow> if has_nul s then Some (ValueError msg) else None
      | _ \<Rightarrow> Some TypeError)"

text \<open>
  POSIX: the argument list is made; its first element is the program, which has to be there
  and to be a string; the names of the environment are checked; the program is looked
  for, in the directories of \<^verbatim>\<open>PATH\<close> when it has no \<^verbatim>\<open>/\<close>; the arguments, the environment
  and the working directory are converted, in this order. Without \<^verbatim>\<open>env\<close> the environment is
  that of the process, which holds no null character.
\<close>

definition posix_popen_error ::
  "pyval \<Rightarrow> pyval \<Rightarrow> (string \<times> string) list option \<Rightarrow> error option" where
  "posix_popen_error argv cwd env =
     (case popen_args argv of
        Inl e \<Rightarrow> Some e
      | Inr [] \<Rightarrow> Some IndexError
      | Inr (x # xs) \<Rightarrow>
          (case x of
             PStr exe \<Rightarrow>
               (let e = (case env of None \<Rightarrow> [] | Some e \<Rightarrow> e) in
                if list_ex (\<lambda>kv. CHR ''='' \<in> set (fst kv)) e
                then Some (ValueError ''illegal environment variable name'')
                else if has_nul exe
                        \<or> CHR ''/'' \<notin> set exe
                          \<and> (case map_of e ''PATH'' of None \<Rightarrow> False | Some dirs \<Rightarrow> has_nul dirs)
                then Some (ValueError ''embedded null byte'')
                else
                  (case args_error (x # xs) of
                     Some err \<Rightarrow> Some err
                   | None \<Rightarrow>
                       if list_ex (\<lambda>kv. has_nul (fst kv) \<or> has_nul (snd kv)) e
                       then Some (ValueError ''embedded null byte'')
                       else cwd_error ''embedded null byte'' cwd))
           | _ \<Rightarrow> Some TypeError))"

text \<open>
  Windows: the arguments are joined to a command line, for which each of them has to be a
  string; the working directory has to be a string; then the working directory, the
  environment, name by name, and the command line are converted.
\<close>

fun env_error :: "(string \<times> string) list \<Rightarrow> error option" where
  "env_error [] = None"
| "env_error (kv # kvs) =
     (if has_nul (fst kv) \<or> has_nul (snd kv) then Some (ValueError ''embedded null character'')
      else if fst kv = [] \<or> CHR ''='' \<in> set (tl (fst kv))
      then Some (ValueError ''illegal environment variable name'')
      else env_error kvs)"

definition windows_popen_error ::
  "pyval \<Rightarrow> pyval \<Rightarrow> (string \<times> string) list option \<Rightarrow> error option" where
  "windows_popen_error argv cwd env =
     (case popen_args argv of
        Inl e \<Rightarrow> Some e
      | Inr xs \<Rightarrow>
          if list_ex (\<lambda>x. case x of PStr s \<Rightarrow> False | _ \<Rightarrow> True) xs then Some TypeError
          else
            (case cwd_error ''embedded null character'' cwd of
               Some err \<Rightarrow> Some err
             | None \<Rightarrow>
                 (case env_error (case env of None \<Rightarrow> [] | Some e \<Rightarrow> e) of
                    Some err \<Rightarrow> Some err
                  | None \<Rightarrow>
                      if list_ex (\<lambda>x. case x of PStr s \<Rightarrow> has_nul s | _ \<Rightarrow> False) xs
                      then Some (ValueError ''embedded null character'')
                      else None)))"

definition popen_error ::
  "platform \<Rightarrow> pyval \<Rightarrow> pyval \<Rightarrow> (string \<times> string) list option \<Rightarrow> error option" where
  "popen_error pf argv cwd env =
     (if sysname pf = ''windows'' then windows_popen_error argv cwd env
      else posix_popen_error argv cwd env)"

text \<open>
  \<^verbatim>\<open>subprocess.run(argv, cwd=cwd, env=env, check=True)\<close>: with arguments that are accepted
  the operating system is asked for the process, and a status other than 0 is
  \<^verbatim>\<open>CalledProcessError\<close>.
\<close>

definition subprocess_run ::
  "platform \<Rightarrow> pyval \<Rightarrow> pyval \<Rightarrow> (string \<times> string) list option \<Rightarrow> unit io" where
  "subprocess_run pf argv cwd env w =
     (case popen_error pf argv cwd env of
        Some e \<Rightarrow> (Inl e, w)
      | None \<Rightarrow>
          (let (r, ns) = spawn pf argv cwd env (nodes w);
               w' = w\<lparr>nodes := ns, trace := trace w @ [Spawn argv cwd env]\<rparr>
           in case r of
                Exited rc \<Rightarrow> if rc = 0 then (Inr (), w') else (Inl (CalledProcessError rc argv), w')
              | NotStarted \<Rightarrow> (Inl OSError, w')))"

definition shell_argv :: "pyval \<Rightarrow> string \<Rightarrow> pyval" where
  "shell_argv shell_kind cmd =
     (if shell_kind = PStr ''powershell''
      then PList [PStr ''powershell'', PStr ''-NoProfile'', PStr ''-ExecutionPolicy'',
                  PStr ''Bypass'', PStr ''-Command'', PStr cmd]
      else PList [PStr ''/bin/bash'', PStr ''-lc'', PStr cmd])"

definition run_process_shell ::
  "platform \<Rightarrow> string \<Rightarrow> pyval \<Rightarrow> pyval \<Rightarrow> (string \<times> string) list option \<Rightarrow> unit io" where
  "run_process_shell pf cmd shell_kind cwd env = subprocess_run pf (shell_argv shell_kind cmd) cwd env"

definition run_process_argv ::
  "platform \<Rightarrow> pyval \<Rightarrow> pyval \<Rightarrow> (string \<times> string) list option \<Rightarrow> unit io" where
  "run_process_argv pf argv cwd env = subprocess_run pf argv cwd env"

definition clone_repo_to :: "platform \<Rightarrow> pyval \<Rightarrow> path \<Rightarrow> unit io" where
  "clone_repo_to pf url dest w =
     (if path_exists w dest then io_print (SkipClone dest) w
      else io_bind (ensure_parent dest) (\<lambda>_.
           io_bind (io_print (Cloning url dest)) (\<lambda>_.
           subprocess_run pf (PList [PStr ''git'', PStr ''clone'', url, PStr (path_str pf dest)])
             PNone None)) w)"

text \<open>\<^verbatim>\<open>safe_run_command\<close>\<close>

definition safe_run_command ::
  "platform \<Rightarrow> pyval \<Rightarrow> pyval \<Rightarrow> pyval \<Rightarrow> (string \<times> string) list option \<Rightarrow> unit io" where
  "safe_run_command pf item shell_kind cwd env =
     (case item of
        PDict d \<Rightarrow>
          (case map_of d ''argv'' of
             Some argv \<Rightarrow>
               (case argv of
                  PList xs \<Rightarrow> run_process_argv pf argv cwd env
                | _ \<Rightarrow> io_raise (ValueError ''argv must be a list''))
           | None \<Rightarrow> io_raise (ValueError ''Unsupported run item type; use string or {'argv': [...]}.''))
      | PStr s \<Rightarrow> run_process_shell pf s shell_kind cwd env
      | _ \<Rightarrow> io_raise (ValueError ''Unsupported run item type; use string or {'argv': [...]}.''))"

section \<open>Repo resolver\<close>

text \<open>\<^verbatim>\<open>"/" in name\<close>, for whatever \<^verbatim>\<open>name\<close> the document gave.\<close>

definition contains_slash :: "pyval \<Rightarrow> error + bool" where
  "contains_slash name =
     (case name of
        PStr s \<Rightarrow> Inr (CHR ''/'' \<in> set s)
      | PList xs \<Rightarrow> Inr (PStr ''/'' \<in> set xs)
      | PDict kvs \<Rightarrow> Inr (''/'' \<in> set (map fst kvs))
      | _ \<Rightarrow> Inl TypeError)"

definition github_url :: "string \<Rightarrow> string" where
  "github_url repo = ''https://github.com/'' @ repo @ ''.git''"

definition resolve_repo_url :: "(string \<times> pyval) list \<Rightarrow> pyval \<Rightarrow> error + pyval" where
  "resolve_repo_url entry default_org =
     (if truthy (dict_get entry ''url'') then Inr (dict_get entry ''url'')
      else
        let name = dict_get entry ''name'' in
        if \<not> truthy name then Inl (ValueError (''repo entry must contain 'url' or 'name'' @ [CHR 0x27]))
        else
          let org = py_or (dict_get entry ''org'') default_org in
          if \<not> truthy org then
            (case contains_slash name of
               Inl e \<Rightarrow> Inl e
             | Inr True \<Rightarrow> Inr (PStr (github_url (py_str name)))
             | Inr False \<Rightarrow>
                 Inl (ValueError ''No org provided and default_org not set; cannot resolve repo URL''))
          else Inr (PStr (github_url (py_str org @ ''/'' @ py_str name))))"

section \<open>Runner helpers\<close>

text \<open>\<^verbatim>\<open>s.strip()\<close>, \<^verbatim>\<open>s.strip(c)\<close>, \<^verbatim>\<open>s.rstrip(c)\<close> and \<^verbatim>\<open>s.split(c)\<close> for a single character \<open>c\<close>.\<close>

definition strip :: "string \<Rightarrow> string" where
  "strip s = rev (dropWhile is_space (rev (dropWhile is_space s)))"

definition rstrip_char :: "char \<Rightarrow> string \<Rightarrow> string" where
  "rstrip_char c s = rev (dropWhile (\<lambda>x. x = c) (rev s))"

definition strip_char :: "char \<Rightarrow> string \<Rightarrow> string" where
  "strip_char c s = rstrip_char c (dropWhile (\<lambda>x. x = c) s)"

fun split_on :: "char \<Rightarrow> string \<Rightarrow> string list" where
  "split_on c [] = [[]]"
| "split_on c (x # xs) =
     (if x = c then [] # split_on c xs
      else (case split_on c xs of [] \<Rightarrow> [[x]] | y # ys \<Rightarrow> (x # y) # ys))"

text \<open>\<^verbatim>\<open>xs in ys\<close> for two strings.\<close>

fun is_substring :: "string \<Rightarrow> string \<Rightarrow> bool" where
  "is_substring xs [] = (xs = [])"
| "is_substring xs (y # ys) = (take (length xs) (y # ys) = xs \<or> is_substring xs ys)"

text \<open>\<^verbatim>\<open>d.get(k, default)\<close> and \<^verbatim>\<open>{**a, **b}\<close> on insertion-ordered mappings.\<close>

definition dict_get_or :: "(string \<times> pyval) list \<Rightarrow> string \<Rightarrow> pyval \<Rightarrow> pyval" where
  "dict_get_or d k dflt = (case map_of d k of None \<Rightarrow> dflt | Some v \<Rightarrow> v)"

definition dict_merge :: "('k \<times> 'v) list \<Rightarrow> ('k \<times> 'v) list \<Rightarrow> ('k \<times> 'v) list" where
  "dict_merge a b = fold (\<lambda>kv. AList.update (fst kv) (snd kv)) b a"

definition as_values :: "(string \<times> string) list \<Rightarrow> (string \<times> pyval) list" where
  "as_values m = map (\<lambda>kv. (fst kv, PStr (snd kv))) m"

text \<open>\<^verbatim>\<open>for x in v\<close> and \<^verbatim>\<open>len(v)\<close> for whatever value the document gave.\<close>

definition py_iter :: "pyval \<Rightarrow> error + pyval list" where
  "py_iter v =
     (case v of
        PList xs \<Rightarrow> Inr xs
      | PDict kvs \<Rightarrow> Inr (map (\<lambda>kv. PStr (fst kv)) kvs)
      | PStr s \<Rightarrow> Inr (map (\<lambda>c. PStr [c]) s)
      | _ \<Rightarrow> Inl TypeError)"

definition py_len :: "pyval \<Rightarrow> error + nat" where
  "py_len v =
     (case v of
        PList xs \<Rightarrow> Inr (length xs)
      | PDict kvs \<Rightarrow> Inr (length kvs)
      | PStr s \<Rightarrow> Inr (length s)
      | _ \<Rightarrow> Inl TypeError)"

text \<open>\<^verbatim>\<open>detect_os\<close>\<close>

definition detect_os :: "platform \<Rightarrow> error + string" where
  "detect_os pf =
     (if sysname pf = ''windows'' then Inr ''windows''
      else if sysname pf = ''linux'' then
        (let did = distro_id pf; like = distro_like pf in
         if did \<in> set [''ubuntu'', ''debian'', ''linuxmint'', ''pop''] \<or> is_substring ''debian'' like
         then Inr ''ubuntu''
         else if did \<in> set [''fedora'', ''rhel'', ''centos'', ''rocky'', ''almalinux'']
               \<or> is_substring ''rhel'' like \<or> is_substring ''fedora'' like
         then Inr ''fedora''
         else if did \<in> set [''arch'', ''manjaro'', ''endeavouros'', ''arcolinux'']
         then Inr ''arch''
         else Inr ''ubuntu'')
      else Inl (SystemExit ''Unsupported OS''))"

text \<open>\<^verbatim>\<open>parse_overrides\<close> and \<^verbatim>\<open>merge_envs\<close>\<close>

definition parse_overrides :: "string list \<Rightarrow> (string \<times> string) list" where
  "parse_overrides kv_list =
     fold (\<lambda>kv out.
             if CHR ''='' \<notin> set kv then out
             else AList.update (strip (takeWhile (\<lambda>c. c \<noteq> CHR ''='') kv))
                               (strip (tl (dropWhile (\<lambda>c. c \<noteq> CHR ''='') kv))) out)
          kv_list []"

definition merge_envs :: "(string \<times> pyval) list list \<Rightarrow> (string \<times> string) list" where
  "merge_envs maps =
     fold (\<lambda>m out. fold (\<lambda>kv. AList.update (fst kv) (py_str (snd kv))) m out) maps []"

section \<open>Condition evaluator\<close>

text \<open>
  The guard pattern \<^verbatim>\<open>^\s*([A-Za-z_][A-Za-z0-9_]*)\s*(==|!=)\s*(.+?)\s*$\<close>, matched at the start of
  the guard. After the operator comes \<^verbatim>\<open>\s*(.+?)\s*$\<close>: \<^verbatim>\<open>.\<close> is every character but the line
  feed, and \<^verbatim>\<open>\s*$\<close> matches exactly when what is left is white space. When the text after
  the operator has a character that is not white space, the group is that text without
  the white space around it, and there is no match when a line feed is inside it. When
  the text is white space only, the engine gives back white space to the group one
  character at a time from the right, so the group is the last character of it that is not
  a line feed.
\<close>

definition when_value :: "string \<Rightarrow> string option" where
  "when_value t =
     (let t' = dropWhile is_space t in
      if t' \<noteq> [] then
        (let g = rev (dropWhile is_space (rev t')) in
         if CHR 0x0A \<in> set g then None else Some g)
      else
        (case filter (\<lambda>c. c \<noteq> CHR 0x0A) t of
           [] \<Rightarrow> None
         | c # cs \<Rightarrow> Some [last (c # cs)]))"

text \<open>The three groups of a match; the operator as whether it is \<^verbatim>\<open>==\<close>.\<close>

definition parse_when :: "string \<Rightarrow> (string \<times> bool \<times> string) option" where
  "parse_when guard =
     (case dropWhile is_space guard of
        [] \<Rightarrow> None
      | c # r \<Rightarrow>
          if is_ident_start c then
            (case dropWhile is_space (dropWhile is_ident_char r) of
               a # b # t \<Rightarrow>
                 if (a = CHR ''='' \<or> a = CHR ''!'') \<and> b = CHR ''='' then
                   (case when_value t of
                      None \<Rightarrow> None
                    | Some g \<Rightarrow> Some (c # takeWhile is_ident_char r, a = CHR ''='', g))
                 else None
             | _ \<Rightarrow> None)
          else None)"

text \<open>The value of \<^verbatim>\<open>cond_ok\<close> for a guard string.\<close>

definition eval_when :: "(string \<rightharpoonup> pyval) \<Rightarrow> string \<Rightarrow> bool" where
  "eval_when step_ctx guard =
     (case parse_when guard of
        None \<Rightarrow> False
      | Some (k, is_eq, g) \<Rightarrow>
          (let val = strip_char (CHR 0x27) (strip_char (CHR 0x22) (strip g));
               actual = ctx_str step_ctx k
           in if is_eq then actual = val else actual \<noteq> val))"

text \<open>
  The grammar of a guard as the specification words it, \<^verbatim>\<open>IDENT (==|!=) VALUE\<close> with optional
  white space before, between and after the three parts: \<open>guard_form g k is_eq v\<close> says that
  the guard \<open>g\<close> can be read with the identifier \<open>k\<close>, the operator and the value \<open>v\<close>, a
  non-empty text on one line. It is stated to compare \<open>parse_when\<close> with.
\<close>

definition guard_form :: "string \<Rightarrow> string \<Rightarrow> bool \<Rightarrow> string \<Rightarrow> bool" where
  "guard_form g k is_eq v \<longleftrightarrow>
     (\<exists>ws0 ws1 ws2 ws3.
        g = ws0 @ k @ ws1 @ (if is_eq then ''=='' else ''!='') @ ws2 @ v @ ws3
        \<and> (\<forall>c\<in>set (ws0 @ ws1 @ ws2 @ ws3). is_space c)
        \<and> is_identifier k \<and> v \<noteq> [] \<and> CHR 0x0A \<notin> set v)"

section \<open>Step engine\<close>

text \<open>
  The document after loading. Its top level is taken as well-shaped: \<^verbatim>\<open>inputs\<close> and the
  \<^verbatim>\<open>env\<close> sections are mappings and the step lists are sequences; a missing section is
  an empty one. The steps themselves are values as loaded.
\<close>

record os_section =
  os_env :: "(string \<times> pyval) list"
  os_steps :: "pyval list"

record spec_doc =
  spec_inputs :: "(string \<times> pyval) list"
  spec_env :: "(string \<times> pyval) list"
  spec_common :: "pyval list"
  spec_os :: "(string \<times> os_section) list"

text \<open>What \<^verbatim>\<open>run_spec\<close> has fixed before its loop over the steps.\<close>

record run_cfg =
  cfg_os :: string
  cfg_dry_run :: bool
  cfg_ctx :: "(string \<times> pyval) list"
  cfg_env :: "(string \<times> string) list"
  cfg_inputs :: "(string \<times> pyval) list"

definition step_ctx_of :: "run_cfg \<Rightarrow> (string \<times> pyval) list" where
  "step_ctx_of cfg = dict_merge (cfg_ctx cfg) (as_values (cfg_env cfg))"

definition default_shell :: "run_cfg \<Rightarrow> pyval" where
  "default_shell cfg = (if cfg_os cfg = ''windows'' then PStr ''powershell'' else PStr ''bash'')"

text \<open>\<^verbatim>\<open>merge_envs(merged_env, step.get("env", {}) or {})\<close>\<close>

definition step_env_of :: "run_cfg \<Rightarrow> (string \<times> pyval) list \<Rightarrow> error + (string \<times> string) list" where
  "step_env_of cfg d =
     (let ev = py_or (dict_get_or d ''env'' (PDict [])) (PDict []) in
      case ev of
        PDict kvs \<Rightarrow> Inr (merge_envs [as_values (cfg_env cfg), kvs])
      | _ \<Rightarrow> Inl AttributeError)"

subsection \<open>Action \<^verbatim>\<open>write_file\<close>\<close>

definition write_file_action :: "platform \<Rightarrow> run_cfg \<Rightarrow> pyval \<Rightarrow> unit io" where
  "write_file_action pf cfg wfile =
     (case wfile of
        PDict wd \<Rightarrow>
          (case map_of wd ''path'' of
             None \<Rightarrow> io_raise (KeyError ''path'')
           | Some path \<Rightarrow>
               (let content = dict_get_or wd ''content'' (PStr []);
                    mode = dict_get wd ''mode'';
                    append_flag = truthy (dict_get_or wd ''append'' (PBool False))
                in if cfg_dry_run cfg then io_print (DryRunWriteFile path)
                   else write_file pf path content mode append_flag))
      | _ \<Rightarrow> io_raise TypeError)"

subsection \<open>Action \<^verbatim>\<open>clone_repos\<close>\<close>

text \<open>What \<^verbatim>\<open>resolve_repo_url\<close> raises for an entry that is not a mapping.\<close>

definition non_mapping_error :: "pyval \<Rightarrow> error" where
  "non_mapping_error entry =
     (case entry of
        PStr s \<Rightarrow> if is_substring ''url'' s then TypeError else AttributeError
      | PList xs \<Rightarrow> if PStr ''url'' \<in> set xs then TypeError else AttributeError
      | _ \<Rightarrow> TypeError)"

definition resolve_entry :: "pyval \<Rightarrow> pyval \<Rightarrow> error + pyval" where
  "resolve_entry entry default_org =
     (case entry of
        PDict ed \<Rightarrow>
          (case resolve_repo_url ed default_org of
             Inl e \<Rightarrow> Inl (SystemExitRepo e)
           | Inr url \<Rightarrow> Inr url)
      | _ \<Rightarrow> Inl (SystemExitRepo (non_mapping_error entry)))"

text \<open>\<^verbatim>\<open>entry.get("name") or Path(url.rstrip("/").split("/")[-1]).stem\<close>\<close>

definition entry_name :: "platform \<Rightarrow> (string \<times> pyval) list \<Rightarrow> pyval \<Rightarrow> error + pyval" where
  "entry_name pf ed url =
     (if truthy (dict_get ed ''name'') then Inr (dict_get ed ''name'')
      else
        (case url of
           PStr u \<Rightarrow> Inr (PStr (url_stem pf (last (split_on (CHR ''/'') (rstrip_char (CHR ''/'') u)))))
         | _ \<Rightarrow> Inl AttributeError))"

text \<open>\<^verbatim>\<open>dest_path / name\<close>\<close>

definition target_of :: "platform \<Rightarrow> path \<Rightarrow> pyval \<Rightarrow> error + path" where
  "target_of pf dest_path name =
     (case name of PStr n \<Rightarrow> Inr (join_path pf dest_path n) | _ \<Rightarrow> Inl TypeError)"

text \<open>The body of the \<^verbatim>\<open>try\<close> for one \<^verbatim>\<open>post_install\<close> item.\<close>

definition post_item ::
  "platform \<Rightarrow> run_cfg \<Rightarrow> pyval \<Rightarrow> path \<Rightarrow> (string \<times> string) list \<Rightarrow> pyval \<Rightarrow> unit io" where
  "post_item pf cfg shell_kind target step_env pitem =
     (case (case pitem of PDict pd \<Rightarrow> map_of pd ''argv'' | _ \<Rightarrow> None) of
        Some argv \<Rightarrow>
          if cfg_dry_run cfg then io_print (DryRunPostArgv argv)
          else run_process_argv pf argv (PStr (path_str pf target)) (Some step_env)
      | None \<Rightarrow>
          if cfg_dry_run cfg then io_print (DryRunPostShell pitem)
          else run_process_shell pf (py_str pitem) shell_kind (PStr (path_str pf target))
                 (Some step_env))"

fun run_post ::
  "platform \<Rightarrow> run_cfg \<Rightarrow> bool \<Rightarrow> pyval \<Rightarrow> path \<Rightarrow> pyval \<Rightarrow> (string \<times> string) list
   \<Rightarrow> pyval list \<Rightarrow> unit io" where
  "run_post pf cfg continue_on_error shell_kind target name step_env [] = io_return ()"
| "run_post pf cfg continue_on_error shell_kind target name step_env (pitem # rest) =
     io_bind
       (io_except_cpe (post_item pf cfg shell_kind target step_env pitem)
          (\<lambda>e. io_bind (io_print (PostInstallFailed name e))
                  (\<lambda>_. if continue_on_error then io_return () else io_raise e)))
       (\<lambda>_. run_post pf cfg continue_on_error shell_kind target name step_env rest)"

text \<open>
  One round of \<^verbatim>\<open>for entry in repos\<close>. A failed clone that is continued past skips the
  entry's \<^verbatim>\<open>post_install\<close>.
\<close>

definition clone_entry ::
  "platform \<Rightarrow> run_cfg \<Rightarrow> bool \<Rightarrow> pyval \<Rightarrow> (string \<times> string) list \<Rightarrow> path \<Rightarrow> pyval
   \<Rightarrow> pyval \<Rightarrow> unit io" where
  "clone_entry pf cfg continue_on_error shell_kind step_env dest_path default_org entry =
     io_bind (io_lift (resolve_entry entry default_org)) (\<lambda>url.
     (case entry of
        PDict ed \<Rightarrow>
          io_bind (io_lift (entry_name pf ed url)) (\<lambda>name.
          io_bind (io_lift (target_of pf dest_path name)) (\<lambda>target.
          io_bind
            (io_except_cpe
               (io_bind (clone_repo_to pf url target) (\<lambda>_. io_return True))
               (\<lambda>e. io_bind (io_print (CloneFailed e))
                       (\<lambda>_. if continue_on_error then io_return False else io_raise e)))
            (\<lambda>cloned.
               if cloned then
                 io_bind (io_lift (py_iter (py_or (dict_get ed ''post_install'') (PList []))))
                   (run_post pf cfg continue_on_error shell_kind target name step_env)
               else io_return ())))
      | _ \<Rightarrow> io_raise AttributeError))"

fun clone_entries ::
  "platform \<Rightarrow> run_cfg \<Rightarrow> bool \<Rightarrow> pyval \<Rightarrow> (string \<times> string) list \<Rightarrow> path \<Rightarrow> pyval
   \<Rightarrow> pyval list \<Rightarrow> unit io" where
  "clone_entries pf cfg continue_on_error shell_kind step_env dest_path default_org [] =
     io_return ()"
| "clone_entries pf cfg continue_on_error shell_kind step_env dest_path default_org (entry # rest) =
     io_bind
       (clone_entry pf cfg continue_on_error shell_kind step_env dest_path default_org entry)
       (\<lambda>_. clone_entries pf cfg continue_on_error shell_kind step_env dest_path default_org rest)"

text \<open>
  The \<^verbatim>\<open>clone_repos\<close> branch. The destination is interpolated once more, so the branch as a
  whole may not return: \<open>None\<close>.
\<close>

definition clone_repos_action ::
  "platform \<Rightarrow> run_cfg \<Rightarrow> bool \<Rightarrow> pyval \<Rightarrow> (string \<times> string) list \<Rightarrow> pyval
   \<Rightarrow> unit io option" where
  "clone_repos_action pf cfg continue_on_error shell_kind step_env cr =
     (case cr of
        PDict cd \<Rightarrow>
          (let dest_unix = dict_get cd ''dest_unix'';
               dest_windows = dict_get cd ''dest_windows'';
               default_org = py_or (dict_get cd ''default_org'') (dict_get (cfg_inputs cfg) ''DEFAULT_ORG'');
               repos = dict_get_or cd ''repos'' (PList []);
               dest = (if cfg_os cfg = ''windows'' then dest_windows else dest_unix)
           in if \<not> truthy dest
              then Some (io_raise (SystemExit ''clone_repos must specify dest_unix or dest_windows''))
              else
                (case dest of
                   PStr ds \<Rightarrow>
                     (case interpolate_string ds (map_of (step_ctx_of cfg)) of
                        None \<Rightarrow> None
                      | Some ds' \<Rightarrow>
                          Some (\<lambda>w.
                            let dest_path = resolve pf (to_path pf (environ w) ds') in
                            (if cfg_dry_run cfg then
                               io_bind (io_lift (py_len repos))
                                 (\<lambda>n. io_print (DryRunCloneRepos dest_path n))
                             else
                               io_bind (io_lift (py_iter repos))
                                 (clone_entries pf cfg continue_on_error shell_kind step_env
                                    dest_path default_org)) w))
                 | _ \<Rightarrow> Some (io_raise TypeError)))
      | _ \<Rightarrow> Some (io_raise AttributeError))"

subsection \<open>Action \<^verbatim>\<open>run\<close>\<close>

fun run_items ::
  "platform \<Rightarrow> bool \<Rightarrow> pyval \<Rightarrow> pyval \<Rightarrow> (string \<times> string) list \<Rightarrow> pyval list \<Rightarrow> unit io" where
  "run_items pf continue_on_error shell_kind cwd step_env [] = io_return ()"
| "run_items pf continue_on_error shell_kind cwd step_env (itm # rest) =
     io_bind
       (io_except_cpe (safe_run_command pf itm shell_kind cwd (Some step_env))
          (\<lambda>e. io_bind (io_print (RunItemFailed e))
                  (\<lambda>_. if continue_on_error then io_print ContinueOnError else io_raise e)))
       (\<lambda>_. run_items pf continue_on_error shell_kind cwd step_env rest)"

fun print_each :: "pyval list \<Rightarrow> unit io" where
  "print_each [] = io_return ()"
| "print_each (itm # rest) = io_bind (io_print (DryRunRun itm)) (\<lambda>_. print_each rest)"

definition run_action ::
  "platform \<Rightarrow> run_cfg \<Rightarrow> bool \<Rightarrow> pyval \<Rightarrow> pyval \<Rightarrow> (string \<times> string) list \<Rightarrow> pyval
   \<Rightarrow> unit io" where
  "run_action pf cfg continue_on_error shell_kind cwd step_env run_list =
     (case run_list of
        PNone \<Rightarrow> io_print NoOpStep
      | PList xs \<Rightarrow>
          if cfg_dry_run cfg then print_each xs
          else run_items pf continue_on_error shell_kind cwd step_env xs
      | _ \<Rightarrow> io_raise (SystemExit ''run must be a list''))"

subsection \<open>One step, and the loop over the steps\<close>

text \<open>
  The body of the loop from the banner on, for a step that is a mapping \<open>d\<close>. The three
  action tests are those of the source, in its order; each branch ends in \<^verbatim>\<open>continue\<close>.
\<close>

definition step_body ::
  "platform \<Rightarrow> run_cfg \<Rightarrow> nat \<Rightarrow> (string \<times> pyval) list \<Rightarrow> world
   \<Rightarrow> ((error + unit) \<times> world) option" where
  "step_body pf cfg idx d w =
     (let name = py_or (dict_get d ''name'') (PStr (''step-'' @ dec_of_nat idx));
          w1 = snd (io_print (Banner name) w);
          shell_kind = py_or (dict_get d ''shell'') (default_shell cfg);
          cwd = py_or (dict_get d ''workdir'') PNone;
          continue_on_error = truthy (dict_get_or d ''continue_on_error'' (PBool False))
      in case step_env_of cfg d of
           Inl e \<Rightarrow> Some (Inl e, w1)
         | Inr step_env \<Rightarrow>
             (case map_of d ''write_file'' of
                Some wfile \<Rightarrow> Some (write_file_action pf cfg wfile w1)
              | None \<Rightarrow>
                  (case map_of d ''clone_repos'' of
                     Some cr \<Rightarrow>
                       (case clone_repos_action pf cfg continue_on_error shell_kind step_env cr of
                          None \<Rightarrow> None
                        | Some act \<Rightarrow> Some (act w1))
                   | None \<Rightarrow>
                       Some (run_action pf cfg continue_on_error shell_kind cwd step_env
                               (dict_get d ''run'') w1))))"

text \<open>
  One interpolated step: the guard, then the body. A guard that is falsy (absent, empty)
  is no guard; a truthy guard that is not a string makes \<^verbatim>\<open>re.match\<close> raise.
\<close>

definition exec_step ::
  "platform \<Rightarrow> run_cfg \<Rightarrow> nat \<Rightarrow> pyval \<Rightarrow> world \<Rightarrow> ((error + unit) \<times> world) option" where
  "exec_step pf cfg idx step w =
     (case step of
        PDict d \<Rightarrow>
          (let guard = dict_get d ''when'' in
           if truthy guard then
             (case guard of
                PStr g \<Rightarrow>
                  if eval_when (map_of (step_ctx_of cfg)) g then step_body pf cfg idx d w
                  else Some (Inr (), w)
              | _ \<Rightarrow> Some (Inl TypeError, w))
           else step_body pf cfg idx d w)
      | _ \<Rightarrow> Some (Inl AttributeError, w))"

text \<open>
  One round of the loop: the raw step is interpolated against the step context, then
  executed.
\<close>

definition run_step ::
  "platform \<Rightarrow> run_cfg \<Rightarrow> nat \<Rightarrow> pyval \<Rightarrow> world \<Rightarrow> ((error + unit) \<times> world) option" where
  "run_step pf cfg idx raw_step w =
     (case deep_interpolate raw_step (map_of (step_ctx_of cfg)) of
        None \<Rightarrow> None
      | Some step \<Rightarrow> exec_step pf cfg idx step w)"

text \<open>
  What follows a round: nothing when it did not return or raised, the continuation in the
  world it left otherwise.
\<close>

definition and_then ::
  "((error + unit) \<times> world) option \<Rightarrow> (world \<Rightarrow> ((error + unit) \<times> world) option)
   \<Rightarrow> ((error + unit) \<times> world) option" where
  "and_then r k =
     (case r of
        None \<Rightarrow> None
      | Some (Inl e, w') \<Rightarrow> Some (Inl e, w')
      | Some (Inr u, w') \<Rightarrow> k w')"

text \<open>\<^verbatim>\<open>for idx, raw_step in enumerate(steps, start=1)\<close>, from index \<open>idx\<close> on.\<close>

fun run_steps ::
  "platform \<Rightarrow> run_cfg \<Rightarrow> nat \<Rightarrow> pyval list \<Rightarrow> world \<Rightarrow> ((error + unit) \<times> world) option" where
  "run_steps pf cfg idx [] w = Some (Inr (), w)"
| "run_steps pf cfg idx (raw_step # rest) w =
     and_then (run_step pf cfg idx raw_step w) (run_steps pf cfg (Suc idx) rest)"

text \<open>Whether an event is a call of \<^verbatim>\<open>subprocess.run\<close>.\<close>

fun is_spawn :: "event \<Rightarrow> bool" where
  "is_spawn (Spawn argv cwd env) = True"
| "is_spawn (Print m) = False"

section \<open>Orchestrator\<close>

text \<open>The step list: \<^verbatim>\<open>steps = common_steps + os_steps\<close>.\<close>

definition steps_of :: "spec_doc \<Rightarrow> string \<Rightarrow> pyval list" where
  "steps_of spec os_key =
     spec_common spec @ (case map_of (spec_os spec) os_key of None \<Rightarrow> [] | Some sec \<Rightarrow> os_steps sec)"

text \<open>The \<^verbatim>\<open>FORGE_HOME\<close> override of \<^verbatim>\<open>HOME\<close> and \<^verbatim>\<open>USERPROFILE\<close> in \<^verbatim>\<open>os.environ\<close>.\<close>

definition home_override :: "(string \<times> string) list \<Rightarrow> (string \<times> string) list" where
  "home_override env =
     (case map_of env ''FORGE_HOME'' of
        None \<Rightarrow> env
      | Some h \<Rightarrow>
          if h = [] then env
          else AList.update ''USERPROFILE'' h (AList.update ''HOME'' h env))"

definition os_key_of :: "platform \<Rightarrow> (string \<times> string) list \<Rightarrow> error + string" where
  "os_key_of pf env =
     (case map_of env ''FORGE_OS'' of
        None \<Rightarrow> detect_os pf
      | Some os_override \<Rightarrow> if os_override = [] then detect_os pf else Inr os_override)"

text \<open>\<^verbatim>\<open>ctx = {**inputs, **overrides}; ctx["OS"] = os_key\<close>\<close>

definition context_of :: "spec_doc \<Rightarrow> string list \<Rightarrow> string \<Rightarrow> (string \<times> pyval) list" where
  "context_of spec overrides_list os_key =
     AList.update ''OS'' (PStr os_key)
       (dict_merge (spec_inputs spec) (as_values (parse_overrides overrides_list)))"

text \<open>
  The merged environment: the three layers merged, then every value interpolated against
  the context and the merged, not yet interpolated, environment.
\<close>

definition merged_env_of ::
  "spec_doc \<Rightarrow> string \<Rightarrow> (string \<times> pyval) list \<Rightarrow> (string \<times> string) list
   \<Rightarrow> (string \<times> string) list option" where
  "merged_env_of spec os_key ctx proc_env =
     (let env_global = spec_env spec;
          env_os = (case map_of (spec_os spec) os_key of None \<Rightarrow> [] | Some sec \<Rightarrow> os_env sec);
          merged_env = merge_envs [as_values proc_env, env_global, env_os]
      in all_some
           (map (\<lambda>kv. map_option (Pair (fst kv))
                         (interpolate_string (snd kv) (map_of (dict_merge ctx (as_values merged_env)))))
              merged_env))"

text \<open>
  \<^verbatim>\<open>run_spec\<close>. The loaded document is \<open>None\<close> when the file does not exist. The result is
  \<open>None\<close> when the run does not return.
\<close>

definition run_spec ::
  "platform \<Rightarrow> string \<Rightarrow> spec_doc option \<Rightarrow> bool \<Rightarrow> string list \<Rightarrow> world
   \<Rightarrow> ((error + unit) \<times> world) option" where
  "run_spec pf spec_path loaded dry_run overrides_list w =
     (case loaded of
        None \<Rightarrow> Some (Inl (SystemExit (''spec file not found: '' @ spec_path)), w)
      | Some spec \<Rightarrow>
          (let w1 = w\<lparr>environ := home_override (environ w)\<rparr> in
           case os_key_of pf (environ w1) of
             Inl e \<Rightarrow> Some (Inl e, w1)
           | Inr os_key \<Rightarrow>
               (let ctx = context_of spec overrides_list os_key in
                case merged_env_of spec os_key ctx (environ w1) of
                  None \<Rightarrow> None
                | Some merged_env \<Rightarrow>
                    (let cfg = \<lparr>cfg_os = os_key, cfg_dry_run = dry_run, cfg_ctx = ctx,
                                cfg_env = merged_env, cfg_inputs = spec_inputs spec\<rparr>
                     in and_then (run_steps pf cfg 1 (steps_of spec os_key) w1)
                          (\<lambda>w2. Some (io_print AllStepsComplete w2))))))"

section \<open>An example platform\<close>

text \<open>
  A POSIX-like platform to run the definitions on: paths are split at \<^verbatim>\<open>/\<close>, a leading
  \<^verbatim>\<open>~\<close> is \<^verbatim>\<open>HOME\<close>, relative paths start at the root, \<^verbatim>\<open>chmod\<close> takes the mode \<^verbatim>\<open>0600\<close> only,
  and every command succeeds but \<^verbatim>\<open>false\<close> and \<^verbatim>\<open>git clone\<close> of a URL that ends in
  \<^verbatim>\<open>missing.git\<close>. The file \<^verbatim>\<open>/home/dos.txt\<close> of the example world has the line ends \<^verbatim>\<open>\r\n\<close>
  and \<^verbatim>\<open>\r\<close>.
\<close>

definition posix_components :: "string \<Rightarrow> path" where
  "posix_components s = filter (\<lambda>c. c \<noteq> [] \<and> c \<noteq> ''.'') (split_on (CHR ''/'') s)"

definition posix_to_path :: "(string \<times> string) list \<Rightarrow> string \<Rightarrow> path" where
  "posix_to_path env s =
     (case posix_components s of
        [] \<Rightarrow> []
      | c # cs \<Rightarrow>
          if c = ''~''
          then posix_components (case map_of env ''HOME'' of None \<Rightarrow> [] | Some h \<Rightarrow> h) @ cs
          else c # cs)"

definition posix_join :: "path \<Rightarrow> string \<Rightarrow> path" where
  "posix_join d s = (if take 1 s = ''/'' then posix_components s else d @ posix_components s)"

definition posix_str :: "path \<Rightarrow> string" where
  "posix_str p = (if p = [] then ''/'' else concat (map (\<lambda>c. CHR ''/'' # c) p))"

definition posix_stem :: "string \<Rightarrow> string" where
  "posix_stem n =
     (let r = dropWhile (\<lambda>c. c \<noteq> CHR ''.'') (rev n);
          ext = takeWhile (\<lambda>c. c \<noteq> CHR ''.'') (rev n)
      in if r \<noteq> [] \<and> tl r \<noteq> [] \<and> ext \<noteq> [] then rev (tl r) else n)"

definition example_spawn ::
  "pyval \<Rightarrow> pyval \<Rightarrow> (string \<times> string) list option \<Rightarrow> (path \<rightharpoonup> node)
   \<Rightarrow> proc_result \<times> (path \<rightharpoonup> node)" where
  "example_spawn argv cwd env ns =
     (case argv of
        PList [PStr a, PStr b, PStr c] \<Rightarrow>
          if a = ''/bin/bash'' \<and> c = ''false'' then (Exited 1, ns) else (Exited 0, ns)
      | PList [PStr a, PStr b, PStr url, PStr dest] \<Rightarrow>
          if a = ''git'' \<and> is_substring ''missing.git'' url then (Exited 128, ns)
          else (Exited 0, ns)
      | _ \<Rightarrow> (Exited 0, ns))"

definition example_platform :: platform where
  "example_platform =
     \<lparr>to_path = posix_to_path, resolve = (\<lambda>p. p), join_path = posix_join, path_str = posix_str,
      url_stem = posix_stem,
      chmod_mode = (\<lambda>p m. if m = ''0600'' then Some 384 else None),
      spawn = example_spawn,
      sysname = ''linux'', distro_id = ''ubuntu'', distro_like = ''debian''\<rparr>"

definition example_world :: world where
  "example_world =
     \<lparr>nodes = [[''home''] \<mapsto> Dir, [''home'', ''dev''] \<mapsto> Dir,
               [''home'', ''dev'', ''workspace''] \<mapsto> Dir,
               [''home'', ''notes.txt''] \<mapsto> File ''line1'',
               [''home'', ''dos.txt'']
                 \<mapsto> File (''line1'' @ [CHR 0x0D, CHR 0x0A] @ ''line2'' @ [CHR 0x0D])],
      modes = Map.empty,
      environ = [(''FORGE_OS'', ''ubuntu''), (''FORGE_HOME'', ''/home'')],
      trace = []\<rparr>"

definition example_cfg :: run_cfg where
  "example_cfg =
     \<lparr>cfg_os = ''ubuntu'', cfg_dry_run = False,
      cfg_ctx = [(''SESSION'', PStr ''s1''), (''OS'', PStr ''ubuntu'')],
      cfg_env = [(''HOME'', ''/home'')], cfg_inputs = [(''SESSION'', PStr ''s1'')]\<rparr>"

text \<open>
  The document of the repository's test of the workspace-root guard: the input
  \<^verbatim>\<open>WORKSPACE_ROOT\<close> names a directory that exists, and there is one step.
\<close>

definition guard_spec :: spec_doc where
  "guard_spec =
     \<lparr>spec_inputs = [(''WORKSPACE_ROOT'', PStr ''~/dev/workspace'')],
      spec_env = [],
      spec_common = [PDict [(''name'', PStr ''Dummy step''),
                            (''run'', PList [PStr ''echo should-not-run''])]],
      spec_os = []\<rparr>"

text \<open>The document of the repository's test of the step order, and documents with a failing item.\<close>

definition echo_step :: "string \<Rightarrow> string list \<Rightarrow> pyval" where
  "echo_step name cmds = PDict [(''name'', PStr name), (''run'', PList (map PStr cmds))]"

definition order_spec :: spec_doc where
  "order_spec =
     \<lparr>spec_inputs = [], spec_env = [],
      spec_common = [echo_step ''Common step 1'' [''echo common1''],
                     echo_step ''Common step 2'' [''echo common2'']],
      spec_os = [(''windows'', \<lparr>os_env = [], os_steps = [echo_step ''Windows step'' [''echo win'']]\<rparr>),
                 (''ubuntu'', \<lparr>os_env = [],
                    os_steps = [echo_step ''Ubuntu step 1'' [''echo ubuntu1''],
                                echo_step ''Ubuntu step 2'' [''echo ubuntu2'']]\<rparr>)]\<rparr>"




definition shell_spec :: spec_doc where
  "shell_spec =
     \<lparr>spec_inputs = [], spec_env = [],
      spec_common =
        [PDict [(''name'', PStr ''ps''), (''shell'', PStr ''powershell''),
                (''run'', PList [PStr ''Get-Date'',
                                 PDict [(''argv'', PList [PStr ''echo'', PStr ''hi''])]])],
         echo_step ''plain'' [''echo plain'']],
      spec_os = []\<rparr>"

text \<open>The example world with \<^verbatim>\<open>FORGE_OS=windows\<close>.\<close>

definition windows_world :: world where
  "windows_world = example_world\<lparr>environ := [(''FORGE_OS'', ''windows''), (''FORGE_HOME'', ''/home'')]\<rparr>"

text \<open>The commands of the processes in a trace, in order.\<close>

fun spawned :: "event list \<Rightarrow> pyval list" where
  "spawned [] = []"
| "spawned (Spawn argv cwd env # evs) = argv # spawned evs"
| "spawned (Print m # evs) = spawned evs"

section \<open>Properties of the interpolator\<close>

lemma space_not_ident: "is_space c \<Longrightarrow> \<not> is_ident_char c"
  by (auto simp: is_space_def is_ident_char_def is_ident_start_def Let_def)

lemma start_is_ident: "is_ident_start c \<Longrightarrow> is_ident_char c"
  by (simp add: is_ident_char_def)

lemma braces_simps [simp]:
  "braces [] = 0"
  "braces (c # cs) = (if c = CHR ''{'' then Suc (braces cs) else braces cs)"
  "braces (xs @ ys) = braces xs + braces ys"
  by (simp_all add: braces_def)

lemma braces_dropWhile: "braces (dropWhile P xs) \<le> braces xs"
  by (induction xs) auto

lemma match_braces_less:
  assumes "match_braces s = Some (key, rest)"
  shows "braces rest < braces s"
proof -
  from assms obtain r where s: "s = CHR ''{'' # CHR ''{'' # r"
    by (auto simp: match_braces_def split: list.splits if_splits)
  from assms s obtain c r2 where r: "dropWhile is_space r = c # r2"
    and rest: "dropWhile is_space (dropWhile is_ident_char r2) = CHR ''}'' # CHR ''}'' # rest"
    by (auto simp: match_braces_def split: list.splits if_splits)
  have "braces rest \<le> braces (dropWhile is_space (dropWhile is_ident_char r2))"
    by (simp add: rest)
  also have "\<dots> \<le> braces r2"
    by (meson braces_dropWhile le_trans)
  also have "\<dots> \<le> braces (dropWhile is_space r)"
    by (simp add: r)
  also have "\<dots> \<le> braces r"
    by (rule braces_dropWhile)
  finally show ?thesis by (simp add: s)
qed

lemma match_dollar_less:
  assumes "match_dollar s = Some (key, rest)"
  shows "braces rest < braces s"
proof -
  from assms obtain c r2 where s: "s = CHR ''$'' # CHR ''{'' # c # r2"
    and rest: "dropWhile is_ident_char r2 = CHR ''}'' # rest"
    by (auto simp: match_dollar_def split: list.splits if_splits)
  have "braces rest \<le> braces (dropWhile is_ident_char r2)"
    by (simp add: rest)
  also have "\<dots> \<le> braces r2"
    by (rule braces_dropWhile)
  finally show ?thesis by (simp add: s)
qed

lemma search_less:
  assumes pat: "\<And>s key rest. pat s = Some (key, rest) \<Longrightarrow> braces rest < braces s"
    and "search pat s = Some (pre, key, rest)"
  shows "braces pre + braces rest < braces s"
  using assms(2)
proof (induction s arbitrary: pre)
  case Nil
  then show ?case by simp
next
  case (Cons c cs)
  show ?case
  proof (cases "pat (c # cs)")
    case None
    with Cons.prems obtain pre' where "search pat cs = Some (pre', key, rest)" and "pre = c # pre'"
      by (auto split: option.splits)
    with Cons.IH[of pre'] show ?thesis by auto
  next
    case (Some a)
    with Cons.prems have "a = (key, rest)" and "pre = []"
      by (auto split: prod.splits)
    with Some pat[of "c # cs" key rest] show ?thesis by simp
  qed
qed

lemma expand_pattern_returns:
  assumes pat: "\<And>s key rest. pat s = Some (key, rest) \<Longrightarrow> braces rest < braces s"
    and vals: "\<And>key. braces (ctx_str ctx key) = 0"
  shows "\<exists>r. expand_pattern pat ctx s = Some r"
proof (induction "braces s" arbitrary: s rule: less_induct)
  case less
  show ?case
  proof (cases "search pat s")
    case None
    then show ?thesis by (subst expand_pattern.simps) simp
  next
    case (Some a)
    then obtain pre key rest where a: "search pat s = Some (pre, key, rest)"
      by (cases a) auto
    from search_less[OF pat a] have "braces (pre @ ctx_str ctx key @ rest) < braces s"
      by (simp add: vals)
    from less[OF this] obtain r where "expand_pattern pat ctx (pre @ ctx_str ctx key @ rest) = Some r" ..
    then show ?thesis by (subst expand_pattern.simps) (simp add: a)
  qed
qed

lemma braces_zero: "braces s = 0 \<longleftrightarrow> CHR ''{'' \<notin> set s"
  by (induction s) auto

text \<open>
  C2, as amended. When no value of the context has the character \<^verbatim>\<open>{\<close> in its \<^verbatim>\<open>str\<close>,
  \<^verbatim>\<open>interpolate_string\<close> returns for every input string: each replacement takes at least one
  \<^verbatim>\<open>{\<close> out of the string, so each loop makes at most as many passes as the string has
  \<^verbatim>\<open>{\<close>. The source has no bound on its passes.
\<close>

theorem interpolate_string_returns:
  assumes "\<forall>key v. ctx key = Some v \<longrightarrow> CHR ''{'' \<notin> set (py_str v)"
  shows "\<exists>r. interpolate_string s ctx = Some r"
proof -
  have vals: "braces (ctx_str ctx key) = 0" for key
    using assms by (auto simp: ctx_str_def braces_zero split: option.splits)
  obtain t where t: "expand_pattern match_braces ctx s = Some t"
    using expand_pattern_returns[of match_braces ctx s] match_braces_less vals by blast
  obtain r where "expand_pattern match_dollar ctx t = Some r"
    using expand_pattern_returns[of match_dollar ctx t] match_dollar_less vals by blast
  with t show ?thesis by (simp add: interpolate_string_def)
qed

theorem interpolate_string_returns_witness:
  "CHR ''{'' \<notin> set (py_str (PStr ''x'')) \<and> CHR ''{'' \<notin> set (py_str (PStr ''7''))
   \<and> (\<exists>r. interpolate_string ''{{ A }}-${B}-${C}'' [''A'' \<mapsto> PStr ''x'', ''B'' \<mapsto> PStr ''7''] = Some r)
   \<and> interpolate_string ''{{ A }}-${B}-${C}'' [''A'' \<mapsto> PStr ''x'', ''B'' \<mapsto> PStr ''7''] = Some ''x-7-''"
proof -
  have h: "\<forall>key v. [''A'' \<mapsto> PStr ''x'', ''B'' \<mapsto> PStr ''7''] key = Some v \<longrightarrow> CHR ''{'' \<notin> set (py_str v)"
    by (auto simp: py_str_def split: if_splits)
  have e: "interpolate_string ''{{ A }}-${B}-${C}'' [''A'' \<mapsto> PStr ''x'', ''B'' \<mapsto> PStr ''7''] = Some ''x-7-''"
    by code_simp
  from interpolate_string_returns[OF h, of "''{{ A }}-${B}-${C}''"] e show ?thesis
    by (simp add: py_str_def)
qed

lemma self_reference_never_returns:
  assumes "expand_pattern pat ctx out = Some y"
  shows "\<not> (pat = match_braces \<and> ctx = [''A'' \<mapsto> PStr ''{{A}}''] \<and> out = ''{{A}}'')"
proof (rule expand_pattern.raw_induct[where P = "\<lambda>pat ctx out y.
    \<not> (pat = match_braces \<and> ctx = [''A'' \<mapsto> PStr ''{{A}}''] \<and> out = ''{{A}}'')", OF _ assms])
  fix f pat ctx out y
  assume IH: "\<And>pat ctx out y. f pat ctx out = Some y \<Longrightarrow>
      \<not> (pat = match_braces \<and> ctx = [''A'' \<mapsto> PStr ''{{A}}''] \<and> out = ''{{A}}'')"
    and step: "(case search pat out of None \<Rightarrow> Some out
      | Some (pre, key, rest) \<Rightarrow> f pat ctx (pre @ ctx_str ctx key @ rest)) = Some y"
  have s: "search match_braces ''{{A}}'' = Some ([], ''A'', [])"
    by code_simp
  have c: "ctx_str [''A'' \<mapsto> PStr ''{{A}}''] ''A'' = ''{{A}}''"
    by (simp add: ctx_str_def py_str_def)
  show "\<not> (pat = match_braces \<and> ctx = [''A'' \<mapsto> PStr ''{{A}}''] \<and> out = ''{{A}}'')"
  proof
    assume "pat = match_braces \<and> ctx = [''A'' \<mapsto> PStr ''{{A}}''] \<and> out = ''{{A}}''"
    then have eqs: "pat = match_braces" "ctx = [''A'' \<mapsto> PStr ''{{A}}'']" "out = ''{{A}}''"
      by simp_all
    have "f match_braces [''A'' \<mapsto> PStr ''{{A}}''] ''{{A}}'' = Some y"
      using step unfolding eqs s by (simp add: c)
    with IH show False by blast
  qed
qed

text \<open>
  The claim C2 as stated fails: with the context value \<^verbatim>\<open>{{A}}\<close> for \<^verbatim>\<open>A\<close>, the string
  \<^verbatim>\<open>{{A}}\<close> is rewritten to itself and the loop is never left.
\<close>

theorem interpolate_string_loops:
  "interpolate_string ''{{A}}'' [''A'' \<mapsto> PStr ''{{A}}''] = None"
proof -
  have "expand_pattern match_braces [''A'' \<mapsto> PStr ''{{A}}''] ''{{A}}'' = None"
    using self_reference_never_returns
    by (cases "expand_pattern match_braces [''A'' \<mapsto> PStr ''{{A}}''] ''{{A}}''") auto
  then show ?thesis by (simp add: interpolate_string_def)
qed

lemma expand_pattern_fixed:
  assumes "expand_pattern pat ctx s = Some r"
  shows "search pat r = None"
proof (rule expand_pattern.raw_induct[where P = "\<lambda>pat ctx out y. search pat y = None", OF _ assms])
  fix f pat ctx out y
  assume IH: "\<And>pat ctx out y. f pat ctx out = Some y \<Longrightarrow> search pat y = None"
    and step: "(case search pat out of None \<Rightarrow> Some out
      | Some (pre, key, rest) \<Rightarrow> f pat ctx (pre @ ctx_str ctx key @ rest)) = Some y"
  show "search pat y = None"
  proof (cases "search pat out")
    case None
    with step show ?thesis by simp
  next
    case (Some a)
    with step IH show ?thesis by (cases a) auto
  qed
qed

lemma expand_pattern_no_token:
  "search pat s = None \<Longrightarrow> expand_pattern pat ctx s = Some s"
  by (subst expand_pattern.simps) simp

lemma all_some_map:
  "all_some (map f xs) = Some ys \<Longrightarrow> list_all2 (\<lambda>x y. f x = Some y) xs ys"
  by (induction xs arbitrary: ys) (auto split: option.splits)

lemma deep_interpolate_list:
  assumes "deep_interpolate (PList xs) ctx = Some w"
  obtains ys where "w = PList ys" "list_all2 (\<lambda>x y. deep_interpolate x ctx = Some y) xs ys"
  using assms all_some_map[of "\<lambda>v. deep_interpolate v ctx" xs] by auto

lemma deep_interpolate_dict:
  assumes "deep_interpolate (PDict kvs) ctx = Some w"
  obtains kvs' where "w = PDict kvs'"
    "list_all2 (\<lambda>kv kv'. fst kv' = fst kv \<and> deep_interpolate (snd kv) ctx = Some (snd kv')) kvs kvs'"
proof -
  from assms obtain kvs' where w: "w = PDict kvs'"
    and a: "all_some (map (\<lambda>kv. map_option (Pair (fst kv)) (deep_interpolate (snd kv) ctx)) kvs) = Some kvs'"
    by auto
  from all_some_map[OF a]
  have "list_all2 (\<lambda>kv kv'. fst kv' = fst kv \<and> deep_interpolate (snd kv) ctx = Some (snd kv')) kvs kvs'"
    by (rule list_all2_mono) auto
  with w that show ?thesis by blast
qed

lemma deep_interpolate_shape:
  "deep_interpolate v ctx = Some w \<Longrightarrow> shape w = shape v"
proof (induction v arbitrary: w)
  case (PList xs)
  from PList.prems obtain ys where w: "w = PList ys"
    and ys: "list_all2 (\<lambda>x y. deep_interpolate x ctx = Some y) xs ys"
    by (rule deep_interpolate_list)
  from ys PList.IH have "map shape ys = map shape xs"
    by (induction xs ys rule: list_all2_induct) auto
  with w show ?case by simp
next
  case (PDict kvs)
  from PDict.prems obtain kvs' where w: "w = PDict kvs'"
    and ys: "list_all2 (\<lambda>kv kv'. fst kv' = fst kv \<and> deep_interpolate (snd kv) ctx = Some (snd kv')) kvs kvs'"
    by (rule deep_interpolate_dict)
  have IH: "deep_interpolate v ctx = Some w \<Longrightarrow> shape w = shape v" if "(k, v) \<in> set kvs" for k v w
    using PDict.IH[of "(k, v)" v w] that by simp
  from ys IH have "map (\<lambda>kv. (fst kv, shape (snd kv))) kvs' = map (\<lambda>kv. (fst kv, shape (snd kv))) kvs"
  proof (induction kvs kvs' rule: list_all2_induct)
    case Nil
    then show ?case by simp
  next
    case (Cons x xs y ys)
    from Cons.hyps(1) Cons.prems[of "fst x" "snd x" "snd y"] have "shape (snd y) = shape (snd x)" "fst y = fst x"
      by simp_all
    with Cons show ?case by auto
  qed
  with w show ?case by simp
qed auto

lemma list_all2_right:
  "list_all2 P xs ys \<Longrightarrow> y \<in> set ys \<Longrightarrow> \<exists>x\<in>set xs. P x y"
  by (induction rule: list_all2_induct) auto

lemma deep_interpolate_no_dollar:
  "deep_interpolate v ctx = Some w \<Longrightarrow> r \<in> set (strings_of w) \<Longrightarrow> search match_dollar r = None"
proof (induction v arbitrary: w)
  case (PStr s)
  then show ?case
    by (auto simp: interpolate_string_def split: option.splits dest: expand_pattern_fixed)
next
  case (PList xs)
  from PList.prems(1) obtain ys where w: "w = PList ys"
    and ys: "list_all2 (\<lambda>x y. deep_interpolate x ctx = Some y) xs ys"
    by (rule deep_interpolate_list)
  from PList.prems(2) w obtain y where y: "y \<in> set ys" "r \<in> set (strings_of y)"
    by auto
  from y(1) ys obtain x where "x \<in> set xs" "deep_interpolate x ctx = Some y"
    using list_all2_right[OF ys y(1)] by auto
  with PList.IH y(2) show ?case by blast
next
  case (PDict kvs)
  from PDict.prems(1) obtain kvs' where w: "w = PDict kvs'"
    and ys: "list_all2 (\<lambda>kv kv'. fst kv' = fst kv \<and> deep_interpolate (snd kv) ctx = Some (snd kv')) kvs kvs'"
    by (rule deep_interpolate_dict)
  from PDict.prems(2) w obtain kv' where y: "kv' \<in> set kvs'" "r \<in> set (strings_of (snd kv'))"
    by auto
  from y(1) ys obtain kv where kv: "kv \<in> set kvs" "deep_interpolate (snd kv) ctx = Some (snd kv')"
    using list_all2_right[OF ys y(1)] by auto
  from PDict.IH[of kv "snd kv" "snd kv'"] kv y(2) show ?case
    by (cases kv) auto
qed auto



lemma deep_interpolate_plain:
  "deep_interpolate v ctx = Some w \<Longrightarrow>
   \<forall>s\<in>set (strings_of v). search match_braces s = None \<and> search match_dollar s = None \<Longrightarrow>
   w = v"
proof (induction v arbitrary: w)
  case (PStr s)
  then show ?case
    by (simp add: interpolate_string_def expand_pattern_no_token)
next
  case (PList xs)
  from PList.prems(1) obtain ys where w: "w = PList ys"
    and ys: "list_all2 (\<lambda>x y. deep_interpolate x ctx = Some y) xs ys"
    by (rule deep_interpolate_list)
  from ys PList.IH PList.prems(2) have "ys = xs"
    by (induction xs ys rule: list_all2_induct) auto
  with w show ?case by simp
next
  case (PDict kvs)
  from PDict.prems(1) obtain kvs' where w: "w = PDict kvs'"
    and ys: "list_all2 (\<lambda>kv kv'. fst kv' = fst kv \<and> deep_interpolate (snd kv) ctx = Some (snd kv')) kvs kvs'"
    by (rule deep_interpolate_dict)
  have IH: "deep_interpolate (snd kv) ctx = Some w \<Longrightarrow> w = snd kv" if "kv \<in> set kvs" for kv w
    using PDict.IH[of kv "snd kv" w] PDict.prems(2) that by (cases kv) auto
  from ys IH have "kvs' = kvs"
  proof (induction kvs kvs' rule: list_all2_induct)
    case Nil
    then show ?case by simp
  next
    case (Cons x xs y ys)
    from Cons.hyps(1) Cons.prems[of x "snd y"] have "y = x"
      by (simp add: prod_eq_iff)
    with Cons show ?case by auto
  qed
  with w show ?case by simp
qed auto

lemma match_braces_token:
  assumes "match_braces s = Some (key, rest)"
  shows "\<exists>ws1 ws2. s = ''{{'' @ ws1 @ key @ ws2 @ ''}}'' @ rest
           \<and> (\<forall>c\<in>set ws1. is_space c) \<and> (\<forall>c\<in>set ws2. is_space c)
           \<and> key \<noteq> [] \<and> is_ident_start (hd key) \<and> (\<forall>c\<in>set (tl key). is_ident_char c)"
proof -
  from assms obtain r where s: "s = CHR ''{'' # CHR ''{'' # r"
    by (auto simp: match_braces_def split: list.splits if_splits)
  from assms s obtain c r2 where r: "dropWhile is_space r = c # r2" and c: "is_ident_start c"
    and e: "dropWhile is_space (dropWhile is_ident_char r2) = CHR ''}'' # CHR ''}'' # rest"
    and k: "key = c # takeWhile is_ident_char r2"
    by (auto simp: match_braces_def split: list.splits if_splits)
  let ?ws1 = "takeWhile is_space r"
  let ?ws2 = "takeWhile is_space (dropWhile is_ident_char r2)"
  have "r = ?ws1 @ dropWhile is_space r" by simp
  also have "dropWhile is_space r = c # (takeWhile is_ident_char r2 @ dropWhile is_ident_char r2)"
    using r by simp
  also have "dropWhile is_ident_char r2 = ?ws2 @ dropWhile is_space (dropWhile is_ident_char r2)"
    by simp
  finally have "r = ?ws1 @ key @ ?ws2 @ ''}}'' @ rest"
    using e k by simp
  with s have "s = ''{{'' @ ?ws1 @ key @ ?ws2 @ ''}}'' @ rest" by simp
  moreover have "\<forall>c\<in>set ?ws1. is_space c" "\<forall>c\<in>set ?ws2. is_space c"
    by (auto dest: set_takeWhileD)
  moreover have "key \<noteq> []" "is_ident_start (hd key)" "\<forall>c\<in>set (tl key). is_ident_char c"
    using k c by (auto dest: set_takeWhileD)
  ultimately show ?thesis by blast
qed

lemma match_dollar_token:
  assumes "match_dollar s = Some (key, rest)"
  shows "s = ''${'' @ key @ ''}'' @ rest
           \<and> key \<noteq> [] \<and> is_ident_start (hd key) \<and> (\<forall>c\<in>set (tl key). is_ident_char c)"
proof -
  from assms obtain c r2 where s: "s = CHR ''$'' # CHR ''{'' # c # r2" and c: "is_ident_start c"
    and e: "dropWhile is_ident_char r2 = CHR ''}'' # rest"
    and k: "key = c # takeWhile is_ident_char r2"
    by (auto simp: match_dollar_def split: list.splits if_splits)
  have "r2 = takeWhile is_ident_char r2 @ dropWhile is_ident_char r2" by simp
  with e have "r2 = takeWhile is_ident_char r2 @ ''}'' @ rest" by simp
  with s k have "s = ''${'' @ key @ ''}'' @ rest" by simp
  moreover have "key \<noteq> []" "is_ident_start (hd key)" "\<forall>c\<in>set (tl key). is_ident_char c"
    using k c by (auto dest: set_takeWhileD)
  ultimately show ?thesis by blast
qed

lemma search_leftmost:
  assumes "search pat s = Some (pre, key, rest)"
  shows "pat (drop (length pre) s) = Some (key, rest) \<and> take (length pre) s = pre
         \<and> (\<forall>i<length pre. pat (drop i s) = None)"
  using assms
proof (induction s arbitrary: pre)
  case Nil
  then show ?case by simp
next
  case (Cons c cs)
  show ?case
  proof (cases "pat (c # cs)")
    case None
    with Cons.prems obtain pre' where p: "search pat cs = Some (pre', key, rest)" "pre = c # pre'"
      by (auto split: option.splits)
    from Cons.IH[OF p(1)] have ih: "pat (drop (length pre') cs) = Some (key, rest)"
      "take (length pre') cs = pre'" "\<forall>i<length pre'. pat (drop i cs) = None"
      by simp_all
    have "pat (drop i (c # cs)) = None" if "i < length pre" for i
    proof (cases i)
      case 0
      with None show ?thesis by simp
    next
      case (Suc j)
      with that p(2) ih(3) show ?thesis by simp
    qed
    with ih p(2) show ?thesis by simp
  next
    case (Some a)
    with Cons.prems show ?thesis by (auto split: prod.splits)
  qed
qed

lemma expand_pattern_step:
  "search pat s = Some (pre, key, rest) \<Longrightarrow>
   expand_pattern pat ctx s = expand_pattern pat ctx (pre @ ctx_str ctx key @ rest)"
  by (subst expand_pattern.simps) simp

lemma search_braces_token:
  assumes "search match_braces s = Some (pre, key, rest)"
  shows "\<exists>ws1 ws2. s = pre @ ''{{'' @ ws1 @ key @ ws2 @ ''}}'' @ rest
           \<and> (\<forall>c\<in>set ws1. is_space c) \<and> (\<forall>c\<in>set ws2. is_space c)"
proof -
  from search_leftmost[OF assms] have m: "match_braces (drop (length pre) s) = Some (key, rest)"
    and p: "take (length pre) s = pre" by simp_all
  from match_braces_token[OF m] obtain ws1 ws2
    where d: "drop (length pre) s = ''{{'' @ ws1 @ key @ ws2 @ ''}}'' @ rest"
      and w: "\<forall>c\<in>set ws1. is_space c" "\<forall>c\<in>set ws2. is_space c"
    by blast
  have "s = take (length pre) s @ drop (length pre) s" by simp
  with p d have "s = pre @ ''{{'' @ ws1 @ key @ ws2 @ ''}}'' @ rest" by simp
  with w show ?thesis by blast
qed

lemma search_dollar_token:
  assumes "search match_dollar s = Some (pre, key, rest)"
  shows "s = pre @ ''${'' @ key @ ''}'' @ rest"
proof -
  from search_leftmost[OF assms] have m: "match_dollar (drop (length pre) s) = Some (key, rest)"
    and p: "take (length pre) s = pre" by simp_all
  from match_dollar_token[OF m] have d: "drop (length pre) s = ''${'' @ key @ ''}'' @ rest"
    by blast
  have "s = take (length pre) s @ drop (length pre) s" by simp
  with p d show ?thesis by simp
qed

lemma interpolate_string_passes:
  assumes "interpolate_string s ctx = Some r"
  shows "\<exists>t. expand_pattern match_braces ctx s = Some t \<and> search match_braces t = None
             \<and> expand_pattern match_dollar ctx t = Some r \<and> search match_dollar r = None"
  using assms
  by (auto simp: interpolate_string_def split: option.splits dest: expand_pattern_fixed)

subsection \<open>The matchers and the tokens\<close>

lemma closing_chars:
  "\<not> is_space (CHR ''}'')" "\<not> is_ident_char (CHR ''}'')"
  by (simp_all add: is_space_def is_ident_char_def is_ident_start_def)

lemma match_braces_sound:
  assumes "match_braces s = Some (key, rest)"
  shows "\<exists>tok. s = tok @ rest \<and> braces_token tok key"
proof -
  from match_braces_token[OF assms] obtain ws1 ws2
    where s: "s = ''{{'' @ ws1 @ key @ ws2 @ ''}}'' @ rest"
      and w: "\<forall>c\<in>set ws1. is_space c" "\<forall>c\<in>set ws2. is_space c"
      and k: "key \<noteq> []" "is_ident_start (hd key)" "\<forall>c\<in>set (tl key). is_ident_char c"
    by blast
  have "braces_token (''{{'' @ ws1 @ key @ ws2 @ ''}}'') key"
    unfolding braces_token_def is_identifier_def using w k by auto
  with s show ?thesis by (intro exI[of _ "''{{'' @ ws1 @ key @ ws2 @ ''}}''"]) simp
qed

lemma match_braces_complete:
  assumes "braces_token tok key"
  shows "match_braces (tok @ rest) = Some (key, rest)"
proof -
  from assms obtain ws1 ws2 where tok: "tok = ''{{'' @ ws1 @ key @ ws2 @ ''}}''"
    and sp: "\<forall>c\<in>set (ws1 @ ws2). is_space c" and id: "is_identifier key"
    unfolding braces_token_def by blast
  from id obtain c k' where k: "key = c # k'" and c: "is_ident_start c"
    and k': "\<forall>x\<in>set k'. is_ident_char x"
    by (cases key) (auto simp: is_identifier_def)
  let ?e = "''}}'' @ rest"
  have nsp: "\<not> is_space c" using c space_not_ident start_is_ident by blast
  have d0: "dropWhile is_space (ws1 @ c # k' @ ws2 @ ?e) = c # k' @ ws2 @ ?e"
    using sp nsp by (simp add: dropWhile_append2)
  have w2: "\<forall>x\<in>set ws2. \<not> is_ident_char x" using sp space_not_ident by auto
  have tk: "takeWhile is_ident_char (k' @ ws2 @ ?e) = k'"
    using k' w2 closing_chars by (cases ws2) (simp_all add: takeWhile_append2)
  have dk: "dropWhile is_ident_char (k' @ ws2 @ ?e) = ws2 @ ?e"
    using k' w2 closing_chars by (cases ws2) (simp_all add: dropWhile_append2)
  have ds: "dropWhile is_space (ws2 @ ?e) = ?e"
    using sp closing_chars by (simp add: dropWhile_append2)
  have "tok @ rest = CHR ''{'' # CHR ''{'' # (ws1 @ c # k' @ ws2 @ ?e)"
    by (simp add: tok k)
  then show ?thesis
    unfolding match_braces_def using c d0 tk dk ds k by simp
qed

lemma match_dollar_sound:
  assumes "match_dollar s = Some (key, rest)"
  shows "\<exists>tok. s = tok @ rest \<and> dollar_token tok key"
proof -
  from match_dollar_token[OF assms] have s: "s = ''${'' @ key @ ''}'' @ rest"
    and k: "key \<noteq> []" "is_ident_start (hd key)" "\<forall>c\<in>set (tl key). is_ident_char c"
    by blast+
  have "dollar_token (''${'' @ key @ ''}'') key"
    unfolding dollar_token_def is_identifier_def using k by auto
  with s show ?thesis by (intro exI[of _ "''${'' @ key @ ''}''"]) simp
qed

lemma match_dollar_complete:
  assumes "dollar_token tok key"
  shows "match_dollar (tok @ rest) = Some (key, rest)"
proof -
  from assms have tok: "tok = ''${'' @ key @ ''}''" and id: "is_identifier key"
    unfolding dollar_token_def by blast+
  from id obtain c k' where k: "key = c # k'" and c: "is_ident_start c"
    and k': "\<forall>x\<in>set k'. is_ident_char x"
    by (cases key) (auto simp: is_identifier_def)
  have tk: "takeWhile is_ident_char (k' @ CHR ''}'' # rest) = k'"
    using k' closing_chars by (simp add: takeWhile_append2)
  have dk: "dropWhile is_ident_char (k' @ CHR ''}'' # rest) = CHR ''}'' # rest"
    using k' closing_chars by (simp add: dropWhile_append2)
  have "tok @ rest = CHR ''$'' # CHR ''{'' # c # (k' @ CHR ''}'' # rest)"
    by (simp add: tok k)
  then show ?thesis
    unfolding match_dollar_def using c tk dk k by simp
qed

lemma braces_token_not_empty: "\<not> braces_token [] key"
  by (simp add: braces_token_def)

lemma dollar_token_not_empty: "\<not> dollar_token [] key"
  by (simp add: dollar_token_def)

subsection \<open>The search and the leftmost token\<close>

lemma search_finds:
  assumes "pat (drop i s) = Some a" and "i < length s"
  shows "search pat s \<noteq> None"
  using assms
proof (induction s arbitrary: i)
  case Nil
  then show ?case by simp
next
  case (Cons c cs)
  show ?case
  proof (cases i)
    case 0
    with Cons.prems show ?thesis by (auto split: option.splits)
  next
    case (Suc j)
    with Cons.prems have "pat (drop j cs) = Some a" "j < length cs" by simp_all
    from Cons.IH[OF this] show ?thesis by (auto split: option.splits)
  qed
qed

lemma has_token_search:
  assumes sound: "\<And>s key rest. pat s = Some (key, rest) \<Longrightarrow> \<exists>tok. s = tok @ rest \<and> token tok key"
    and complete: "\<And>tok key rest. token tok key \<Longrightarrow> pat (tok @ rest) = Some (key, rest)"
    and nonempty: "\<And>key. \<not> token [] key"
  shows "has_token token s \<longleftrightarrow> search pat s \<noteq> None"
proof
  assume "has_token token s"
  then obtain pre tok key rest where s: "s = pre @ tok @ rest" and t: "token tok key"
    unfolding has_token_def by blast
  from t nonempty have "tok \<noteq> []" by auto
  with s have l: "length pre < length s" by simp
  from s have "drop (length pre) s = tok @ rest" by simp
  with complete[OF t, of rest] have "pat (drop (length pre) s) = Some (key, rest)" by simp
  from search_finds[where pat = pat and i = "length pre" and s = s, OF this l]
  show "search pat s \<noteq> None" .
next
  assume "search pat s \<noteq> None"
  then obtain pre key rest where f: "search pat s = Some (pre, key, rest)" by auto
  from search_leftmost[OF f] have m: "pat (drop (length pre) s) = Some (key, rest)"
    and p: "take (length pre) s = pre" by simp_all
  from sound[OF m] obtain tok where d: "drop (length pre) s = tok @ rest" and t: "token tok key"
    by blast
  have "s = take (length pre) s @ drop (length pre) s" by simp
  with p d have "s = pre @ tok @ rest" by simp
  with t show "has_token token s" unfolding has_token_def by blast
qed

lemma search_is_leftmost_token:
  assumes sound: "\<And>s key rest. pat s = Some (key, rest) \<Longrightarrow> \<exists>tok. s = tok @ rest \<and> token tok key"
    and complete: "\<And>tok key rest. token tok key \<Longrightarrow> pat (tok @ rest) = Some (key, rest)"
    and f: "search pat s = Some (pre, key, rest)"
  shows "\<exists>tok. s = pre @ tok @ rest \<and> token tok key
           \<and> (\<forall>pre' tok' key' rest'. s = pre' @ tok' @ rest' \<and> token tok' key'
                 \<longrightarrow> length pre \<le> length pre')"
proof -
  from search_leftmost[OF f] have m: "pat (drop (length pre) s) = Some (key, rest)"
    and p: "take (length pre) s = pre" and l: "\<forall>i<length pre. pat (drop i s) = None"
    by simp_all
  from sound[OF m] obtain tok where d: "drop (length pre) s = tok @ rest" and t: "token tok key"
    by blast
  have "s = take (length pre) s @ drop (length pre) s" by simp
  with p d have s: "s = pre @ tok @ rest" by simp
  have "length pre \<le> length pre'" if "s = pre' @ tok' @ rest'" and "token tok' key'"
    for pre' tok' key' rest'
  proof (rule ccontr)
    assume "\<not> length pre \<le> length pre'"
    then have "length pre' < length pre" by simp
    with l have n: "pat (drop (length pre') s) = None" by blast
    from that(1) have "drop (length pre') s = tok' @ rest'" by simp
    with complete[OF that(2), of rest'] n show False by simp
  qed
  with s t show ?thesis by blast
qed

lemma leftmost_token_is_search:
  assumes sound: "\<And>s key rest. pat s = Some (key, rest) \<Longrightarrow> \<exists>tok. s = tok @ rest \<and> token tok key"
    and complete: "\<And>tok key rest. token tok key \<Longrightarrow> pat (tok @ rest) = Some (key, rest)"
    and nonempty: "\<And>key. \<not> token [] key"
    and s: "s = pre @ tok @ rest" and t: "token tok key"
    and l: "\<forall>pre' tok' key' rest'. s = pre' @ tok' @ rest' \<and> token tok' key'
                 \<longrightarrow> length pre \<le> length pre'"
  shows "search pat s = Some (pre, key, rest)"
proof -
  from s t have "has_token token s" unfolding has_token_def by blast
  with has_token_search[of pat token s, OF sound complete nonempty]
  obtain pre0 key0 rest0 where f: "search pat s = Some (pre0, key0, rest0)" by auto
  from search_is_leftmost_token[of pat token, OF sound complete f] obtain tok0
    where s0: "s = pre0 @ tok0 @ rest0" and t0: "token tok0 key0"
      and l0: "\<forall>pre' tok' key' rest'. s = pre' @ tok' @ rest' \<and> token tok' key'
                 \<longrightarrow> length pre0 \<le> length pre'"
    by blast
  from l s0 t0 have "length pre \<le> length pre0" by blast
  moreover from l0 s t have "length pre0 \<le> length pre" by blast
  ultimately have le: "length pre = length pre0" by simp
  from s s0 have "pre @ (tok @ rest) = pre0 @ (tok0 @ rest0)" by simp
  with le have pre: "pre = pre0" and tl: "tok @ rest = tok0 @ rest0" by simp_all
  from search_leftmost[OF f] have "pat (drop (length pre0) s) = Some (key0, rest0)" by simp
  moreover from s0 have "drop (length pre0) s = tok0 @ rest0" by simp
  ultimately have "pat (tok @ rest) = Some (key0, rest0)" using tl by simp
  with complete[OF t, of rest] have "key0 = key" "rest0 = rest" by simp_all
  with f pre show ?thesis by simp
qed

lemma replaces_search:
  assumes sound: "\<And>s key rest. pat s = Some (key, rest) \<Longrightarrow> \<exists>tok. s = tok @ rest \<and> token tok key"
    and complete: "\<And>tok key rest. token tok key \<Longrightarrow> pat (tok @ rest) = Some (key, rest)"
    and nonempty: "\<And>key. \<not> token [] key"
  shows "replaces token ctx s s'
         \<longleftrightarrow> (\<exists>pre key rest. search pat s = Some (pre, key, rest) \<and> s' = pre @ ctx_str ctx key @ rest)"
proof
  assume "replaces token ctx s s'"
  then obtain pre tok key rest where s: "s = pre @ tok @ rest" and t: "token tok key"
    and l: "\<forall>pre' tok' key' rest'. s = pre' @ tok' @ rest' \<and> token tok' key'
                 \<longrightarrow> length pre \<le> length pre'"
    and s': "s' = pre @ ctx_str ctx key @ rest"
    unfolding replaces_def by blast
  from leftmost_token_is_search[of pat token, OF sound complete nonempty s t l] s'
  show "\<exists>pre key rest. search pat s = Some (pre, key, rest) \<and> s' = pre @ ctx_str ctx key @ rest"
    by blast
next
  assume "\<exists>pre key rest. search pat s = Some (pre, key, rest) \<and> s' = pre @ ctx_str ctx key @ rest"
  then obtain pre key rest where f: "search pat s = Some (pre, key, rest)"
    and s': "s' = pre @ ctx_str ctx key @ rest" by blast
  from search_is_leftmost_token[of pat token, OF sound complete f] s'
  show "replaces token ctx s s'" unfolding replaces_def by blast
qed

subsection \<open>The loops as rewriting to a normal form\<close>

lemma expand_pattern_steps:
  assumes "expand_pattern pat ctx s = Some r"
  shows "(\<lambda>a b. \<exists>pre key rest. search pat a = Some (pre, key, rest)
                   \<and> b = pre @ ctx_str ctx key @ rest)\<^sup>*\<^sup>* s r"
proof (rule expand_pattern.raw_induct[where P = "\<lambda>pat ctx out y.
    (\<lambda>a b. \<exists>pre key rest. search pat a = Some (pre, key, rest)
               \<and> b = pre @ ctx_str ctx key @ rest)\<^sup>*\<^sup>* out y", OF _ assms])
  fix f pat ctx out y
  assume IH: "\<And>pat ctx out y. f pat ctx out = Some y \<Longrightarrow>
      (\<lambda>a b. \<exists>pre key rest. search pat a = Some (pre, key, rest)
                 \<and> b = pre @ ctx_str ctx key @ rest)\<^sup>*\<^sup>* out y"
    and step: "(case search pat out of None \<Rightarrow> Some out
      | Some (pre, key, rest) \<Rightarrow> f pat ctx (pre @ ctx_str ctx key @ rest)) = Some y"
  show "(\<lambda>a b. \<exists>pre key rest. search pat a = Some (pre, key, rest)
                 \<and> b = pre @ ctx_str ctx key @ rest)\<^sup>*\<^sup>* out y"
  proof (cases "search pat out")
    case None
    with step show ?thesis by simp
  next
    case (Some a)
    then obtain pre key rest where a: "search pat out = Some (pre, key, rest)" by (cases a) auto
    with step have "f pat ctx (pre @ ctx_str ctx key @ rest) = Some y" by simp
    from IH[OF this] a show ?thesis
      by (intro converse_rtranclp_into_rtranclp[of _ out "pre @ ctx_str ctx key @ rest" y]) blast+
  qed
qed

lemma steps_expand_pattern:
  assumes "(\<lambda>a b. \<exists>pre key rest. search pat a = Some (pre, key, rest)
                   \<and> b = pre @ ctx_str ctx key @ rest)\<^sup>*\<^sup>* s r"
    and "search pat r = None"
  shows "expand_pattern pat ctx s = Some r"
  using assms
proof (induction rule: converse_rtranclp_induct)
  case base
  then show ?case by (rule expand_pattern_no_token)
next
  case (step a b)
  from step.hyps(1) obtain pre key rest where f: "search pat a = Some (pre, key, rest)"
    and b: "b = pre @ ctx_str ctx key @ rest" by blast
  from expand_pattern_step[OF f, of ctx] b step.IH[OF step.prems] show ?case by simp
qed

lemma expand_pattern_normal_form:
  assumes sound: "\<And>s key rest. pat s = Some (key, rest) \<Longrightarrow> \<exists>tok. s = tok @ rest \<and> token tok key"
    and complete: "\<And>tok key rest. token tok key \<Longrightarrow> pat (tok @ rest) = Some (key, rest)"
    and nonempty: "\<And>key. \<not> token [] key"
  shows "expand_pattern pat ctx s = Some r
         \<longleftrightarrow> (replaces token ctx)\<^sup>*\<^sup>* s r \<and> \<not> has_token token r"
proof -
  have rel: "replaces token ctx
      = (\<lambda>a b. \<exists>pre key rest. search pat a = Some (pre, key, rest)
                  \<and> b = pre @ ctx_str ctx key @ rest)"
    by (intro ext) (rule replaces_search[of pat token, OF sound complete nonempty])
  have nf: "\<not> has_token token r \<longleftrightarrow> search pat r = None"
    using has_token_search[of pat token r, OF sound complete nonempty] by blast
  show ?thesis
    unfolding rel nf
    using expand_pattern_steps[of pat ctx s r] expand_pattern_fixed[of pat ctx s r]
      steps_expand_pattern[of pat ctx s r]
    by blast
qed

lemma interpolate_string_normal_form:
  "interpolate_string s ctx = Some r
   \<longleftrightarrow> (\<exists>t. (replaces braces_token ctx)\<^sup>*\<^sup>* s t \<and> \<not> has_token braces_token t
           \<and> (replaces dollar_token ctx)\<^sup>*\<^sup>* t r \<and> \<not> has_token dollar_token r)"
proof -
  note b = expand_pattern_normal_form[of match_braces braces_token, OF match_braces_sound
      match_braces_complete braces_token_not_empty]
  note d = expand_pattern_normal_form[of match_dollar dollar_token, OF match_dollar_sound
      match_dollar_complete dollar_token_not_empty]
  show ?thesis
  proof
    assume "interpolate_string s ctx = Some r"
    then obtain t where "expand_pattern match_braces ctx s = Some t"
      and "expand_pattern match_dollar ctx t = Some r"
      by (auto simp: interpolate_string_def split: option.splits)
    with b[of ctx s t] d[of ctx t r]
    show "\<exists>t. (replaces braces_token ctx)\<^sup>*\<^sup>* s t \<and> \<not> has_token braces_token t
           \<and> (replaces dollar_token ctx)\<^sup>*\<^sup>* t r \<and> \<not> has_token dollar_token r"
      by blast
  next
    assume "\<exists>t. (replaces braces_token ctx)\<^sup>*\<^sup>* s t \<and> \<not> has_token braces_token t
           \<and> (replaces dollar_token ctx)\<^sup>*\<^sup>* t r \<and> \<not> has_token dollar_token r"
    then obtain t where "(replaces braces_token ctx)\<^sup>*\<^sup>* s t" "\<not> has_token braces_token t"
      "(replaces dollar_token ctx)\<^sup>*\<^sup>* t r" "\<not> has_token dollar_token r"
      by blast
    with b[of ctx s t] d[of ctx t r]
    have "expand_pattern match_braces ctx s = Some t" "expand_pattern match_dollar ctx t = Some r"
      by simp_all
    then show "interpolate_string s ctx = Some r" by (simp add: interpolate_string_def)
  qed
qed

lemma no_token_search:
  "\<not> has_token braces_token s \<longleftrightarrow> search match_braces s = None"
  "\<not> has_token dollar_token s \<longleftrightarrow> search match_dollar s = None"
  using has_token_search[of match_braces braces_token s, OF match_braces_sound
      match_braces_complete braces_token_not_empty]
    has_token_search[of match_dollar dollar_token s, OF match_dollar_sound
      match_dollar_complete dollar_token_not_empty]
  by blast+

lemma dollar_token_has_dollar: "has_token dollar_token t \<Longrightarrow> CHR ''$'' \<in> set t"
  by (auto simp: has_token_def dollar_token_def)

lemma replaces_keeps_no_dollar:
  assumes "(replaces token ctx)\<^sup>*\<^sup>* s t" and "CHR ''$'' \<notin> set s"
    and "\<forall>key. CHR ''$'' \<notin> set (ctx_str ctx key)"
  shows "CHR ''$'' \<notin> set t"
  using assms(1,2)
proof (induction rule: rtranclp_induct)
  case base
  then show ?case .
next
  case (step b c)
  from step.hyps(2) obtain pre tok key rest where "b = pre @ tok @ rest"
    "c = pre @ ctx_str ctx key @ rest"
    unfolding replaces_def by blast
  with step.IH[OF step.prems] assms(3) show ?case by auto
qed

subsection \<open>Values\<close>

lemma list_all2_concat:
  "list_all2 (\<lambda>x y. list_all2 P (f x) (g y)) xs ys
   \<Longrightarrow> list_all2 P (concat (map f xs)) (concat (map g ys))"
  by (induction xs ys rule: list_all2_induct) (auto intro: list_all2_appendI)

lemma deep_interpolate_strings:
  "deep_interpolate v ctx = Some w
   \<Longrightarrow> list_all2 (\<lambda>s r. interpolate_string s ctx = Some r) (strings_of v) (strings_of w)"
proof (induction v arbitrary: w)
  case (PStr s)
  then show ?case by auto
next
  case (PList xs)
  from PList.prems obtain ys where w: "w = PList ys"
    and ys: "list_all2 (\<lambda>x y. deep_interpolate x ctx = Some y) xs ys"
    by (rule deep_interpolate_list)
  from ys PList.IH
  have "list_all2 (\<lambda>x y. list_all2 (\<lambda>s r. interpolate_string s ctx = Some r)
                      (strings_of x) (strings_of y)) xs ys"
    by (induction xs ys rule: list_all2_induct) auto
  from list_all2_concat[OF this] w show ?case by simp
next
  case (PDict kvs)
  from PDict.prems obtain kvs' where w: "w = PDict kvs'"
    and ys: "list_all2 (\<lambda>kv kv'. fst kv' = fst kv \<and> deep_interpolate (snd kv) ctx = Some (snd kv')) kvs kvs'"
    by (rule deep_interpolate_dict)
  have IH: "deep_interpolate (snd kv) ctx = Some w
      \<Longrightarrow> list_all2 (\<lambda>s r. interpolate_string s ctx = Some r) (strings_of (snd kv)) (strings_of w)"
    if "kv \<in> set kvs" for kv w
    using PDict.IH[of kv "snd kv" w] that by (cases kv) auto
  from ys IH
  have "list_all2 (\<lambda>x y. list_all2 (\<lambda>s r. interpolate_string s ctx = Some r)
                      (strings_of (snd x)) (strings_of (snd y))) kvs kvs'"
    by (induction kvs kvs' rule: list_all2_induct) auto
  from list_all2_concat[OF this] w show ?case by simp
qed auto

lemma all_some_total:
  "\<forall>x\<in>set xs. \<exists>y. f x = Some y \<Longrightarrow> \<exists>ys. all_some (map f xs) = Some ys"
  by (induction xs) auto

lemma interpolate_string_total:
  assumes "\<forall>key. CHR ''{'' \<notin> set (ctx_str ctx key)"
  shows "\<exists>r. interpolate_string s ctx = Some r"
proof -
  have vals: "braces (ctx_str ctx key) = 0" for key
    using assms by (simp add: braces_zero)
  obtain t where t: "expand_pattern match_braces ctx s = Some t"
    using expand_pattern_returns[of match_braces ctx s] match_braces_less vals by blast
  obtain r where "expand_pattern match_dollar ctx t = Some r"
    using expand_pattern_returns[of match_dollar ctx t] match_dollar_less vals by blast
  with t show ?thesis by (simp add: interpolate_string_def)
qed

lemma deep_interpolate_total:
  assumes "\<forall>key. CHR ''{'' \<notin> set (ctx_str ctx key)"
  shows "\<exists>w. deep_interpolate v ctx = Some w"
proof (induction v)
  case (PStr s)
  from interpolate_string_total[OF assms, of s] show ?case by auto
next
  case (PList xs)
  then have "\<forall>x\<in>set xs. \<exists>y. deep_interpolate x ctx = Some y" by blast
  from all_some_total[OF this] show ?case by auto
next
  case (PDict kvs)
  have "\<forall>kv\<in>set kvs. \<exists>y. map_option (Pair (fst kv)) (deep_interpolate (snd kv) ctx) = Some y"
  proof
    fix kv assume "kv \<in> set kvs"
    with PDict[of kv "snd kv"] show "\<exists>y. map_option (Pair (fst kv)) (deep_interpolate (snd kv) ctx) = Some y"
      by (cases kv) auto
  qed
  from all_some_total[OF this] show ?case by auto
qed auto

lemma replaces_has_token: "replaces token ctx s s' \<Longrightarrow> has_token token s"
  unfolding replaces_def has_token_def by blast

lemma normal_form_stays:
  assumes "(replaces token ctx)\<^sup>*\<^sup>* t r" and "\<not> has_token token t"
  shows "r = t"
  using assms by (induction rule: converse_rtranclp_induct) (auto dest: replaces_has_token)

lemma interpolate_string_no_dollar:
  assumes "interpolate_string s ctx = Some r" and "CHR ''$'' \<notin> set s"
    and "\<forall>key. CHR ''$'' \<notin> set (ctx_str ctx key)"
  shows "\<not> has_token braces_token r \<and> \<not> has_token dollar_token r"
proof -
  from assms(1) obtain t where c: "(replaces braces_token ctx)\<^sup>*\<^sup>* s t"
    and n: "\<not> has_token braces_token t" and d: "(replaces dollar_token ctx)\<^sup>*\<^sup>* t r"
    and n': "\<not> has_token dollar_token r"
    unfolding interpolate_string_normal_form by blast
  from replaces_keeps_no_dollar[OF c assms(2,3)] have "\<not> has_token dollar_token t"
    using dollar_token_has_dollar by blast
  from normal_form_stays[OF d this] n n' show ?thesis by simp
qed

text \<open>
  C3, as amended. When \<^verbatim>\<open>deep_interpolate\<close> returns, the result has the shape of the value:
  sequences and mappings keep their length, order and keys, strings are replaced by
  strings and every other value is itself; the string at a place of the result is the
  interpolation of the string at this place of the value; no string of the result has a
  \<^verbatim>\<open>${NAME}\<close> token, for any name; a value whose strings have no token is returned as it is;
  and when neither the strings of the value nor the \<^verbatim>\<open>str\<close> of a value of the context
  have a \<^verbatim>\<open>$\<close>, no string of the result has a \<^verbatim>\<open>{{NAME}}\<close> token either.

  The interpolation of a string \<open>s\<close> returns \<open>r\<close> exactly when \<open>r\<close> is what is reached from \<open>s\<close>
  by replacing the leftmost \<^verbatim>\<open>{{NAME}}\<close> token by the \<^verbatim>\<open>str\<close> of the context's value for the
  name, or by nothing when the context has no such name, until no such token is left,
  and then the same for \<^verbatim>\<open>${NAME}\<close>. When the string that the \<^verbatim>\<open>{{NAME}}\<close> replacements end
  in has no \<^verbatim>\<open>${NAME}\<close> token, it is the result, and so the result has no token of either
  kind. When no \<^verbatim>\<open>str\<close> of a value of the context has a \<^verbatim>\<open>{\<close>, \<^verbatim>\<open>deep_interpolate\<close> returns for
  every value.
\<close>

theorem deep_interpolate_result:
  "(deep_interpolate v ctx = Some w \<longrightarrow>
      shape w = shape v
      \<and> list_all2 (\<lambda>s r. interpolate_string s ctx = Some r) (strings_of v) (strings_of w)
      \<and> (\<forall>r\<in>set (strings_of w). \<not> has_token dollar_token r)
      \<and> ((\<forall>s\<in>set (strings_of v). \<not> has_token braces_token s \<and> \<not> has_token dollar_token s)
          \<longrightarrow> w = v)
      \<and> ((\<forall>s\<in>set (strings_of v). CHR ''$'' \<notin> set s) \<and> (\<forall>key. CHR ''$'' \<notin> set (ctx_str ctx key))
          \<longrightarrow> (\<forall>r\<in>set (strings_of w). \<not> has_token braces_token r)))
   \<and> (interpolate_string s ctx = Some r \<longleftrightarrow>
        (\<exists>t. (replaces braces_token ctx)\<^sup>*\<^sup>* s t \<and> \<not> has_token braces_token t
           \<and> (replaces dollar_token ctx)\<^sup>*\<^sup>* t r \<and> \<not> has_token dollar_token r))
   \<and> ((replaces braces_token ctx)\<^sup>*\<^sup>* s t \<and> \<not> has_token braces_token t
        \<and> \<not> has_token dollar_token t \<longrightarrow> interpolate_string s ctx = Some t)
   \<and> ((\<forall>key. CHR ''{'' \<notin> set (ctx_str ctx key)) \<longrightarrow> (\<exists>w. deep_interpolate v ctx = Some w))"
proof (intro conjI impI ballI)
  assume d: "deep_interpolate v ctx = Some w"
  then show "shape w = shape v" by (rule deep_interpolate_shape)
  from d show s: "list_all2 (\<lambda>s r. interpolate_string s ctx = Some r) (strings_of v) (strings_of w)"
    by (rule deep_interpolate_strings)
  {
    fix r assume "r \<in> set (strings_of w)"
    with d show "\<not> has_token dollar_token r"
      using deep_interpolate_no_dollar no_token_search(2) by blast
  }
  {
    assume "\<forall>s\<in>set (strings_of v). \<not> has_token braces_token s \<and> \<not> has_token dollar_token s"
    then have "\<forall>s\<in>set (strings_of v). search match_braces s = None \<and> search match_dollar s = None"
      using no_token_search by blast
    with d show "w = v" by (rule deep_interpolate_plain)
  }
  {
    fix r
    assume h: "(\<forall>s\<in>set (strings_of v). CHR ''$'' \<notin> set s) \<and> (\<forall>key. CHR ''$'' \<notin> set (ctx_str ctx key))"
      and r: "r \<in> set (strings_of w)"
    from list_all2_right[OF s r] obtain s' where "s' \<in> set (strings_of v)"
      "interpolate_string s' ctx = Some r" by blast
    with h interpolate_string_no_dollar[of s' ctx r] show "\<not> has_token braces_token r" by blast
  }
next
  show "interpolate_string s ctx = Some r \<longleftrightarrow>
        (\<exists>t. (replaces braces_token ctx)\<^sup>*\<^sup>* s t \<and> \<not> has_token braces_token t
           \<and> (replaces dollar_token ctx)\<^sup>*\<^sup>* t r \<and> \<not> has_token dollar_token r)"
    by (rule interpolate_string_normal_form)
next
  assume "(replaces braces_token ctx)\<^sup>*\<^sup>* s t \<and> \<not> has_token braces_token t
        \<and> \<not> has_token dollar_token t"
  then have "\<exists>t'. (replaces braces_token ctx)\<^sup>*\<^sup>* s t' \<and> \<not> has_token braces_token t'
           \<and> (replaces dollar_token ctx)\<^sup>*\<^sup>* t' t \<and> \<not> has_token dollar_token t"
    by (intro exI[of _ t]) simp
  then show "interpolate_string s ctx = Some t"
    unfolding interpolate_string_normal_form .
next
  assume "\<forall>key. CHR ''{'' \<notin> set (ctx_str ctx key)"
  then show "\<exists>w. deep_interpolate v ctx = Some w" by (rule deep_interpolate_total)
qed

text \<open>
  The claim C3 as stated fails: the \<^verbatim>\<open>{{NAME}}\<close> pass is over when the \<^verbatim>\<open>${NAME}\<close> pass
  runs, and replacing \<^verbatim>\<open>${A}\<close> by the empty string in \<^verbatim>\<open>{${A}{B}}\<close> leaves \<^verbatim>\<open>{{B}}\<close>, a
  token of a name the context has.
\<close>

theorem braces_token_remains:
  "deep_interpolate (PStr ''{${A}{B}}'') [''A'' \<mapsto> PStr '''', ''B'' \<mapsto> PStr ''x'']
     = Some (PStr ''{{B}}'')
   \<and> search match_braces ''{{B}}'' = Some ([], ''B'', [])
   \<and> [''A'' \<mapsto> PStr '''', ''B'' \<mapsto> PStr ''x''] ''B'' = Some (PStr ''x'')"
  by code_simp

theorem deep_interpolate_result_witness:
  "deep_interpolate
     (PDict [(''name'', PStr ''hi {{ A }}''), (''run'', PList [PStr ''${B}'', PInt 3])])
     [''A'' \<mapsto> PStr ''x'', ''B'' \<mapsto> PStr ''y'']
     = Some (PDict [(''name'', PStr ''hi x''), (''run'', PList [PStr ''y'', PInt 3])])
   \<and> shape (PDict [(''name'', PStr ''hi x''), (''run'', PList [PStr ''y'', PInt 3])])
     = shape (PDict [(''name'', PStr ''hi {{ A }}''), (''run'', PList [PStr ''${B}'', PInt 3])])
   \<and> list_all2 (\<lambda>s r. interpolate_string s [''A'' \<mapsto> PStr ''x'', ''B'' \<mapsto> PStr ''y''] = Some r)
       [''hi {{ A }}'', ''${B}''] [''hi x'', ''y'']
   \<and> \<not> has_token dollar_token ''hi x'' \<and> \<not> has_token dollar_token ''y''
   \<and> (\<exists>t. (replaces braces_token [''A'' \<mapsto> PStr ''x'', ''B'' \<mapsto> PStr ''y''])\<^sup>*\<^sup>* ''{{A}}-${B}-${C}'' t
         \<and> \<not> has_token braces_token t
         \<and> (replaces dollar_token [''A'' \<mapsto> PStr ''x'', ''B'' \<mapsto> PStr ''y''])\<^sup>*\<^sup>* t ''x-y-''
         \<and> \<not> has_token dollar_token ''x-y-'')
   \<and> \<not> has_token braces_token ''a x b''
   \<and> (\<exists>w. deep_interpolate (PList [PStr ''{{A}}{{ B }}'', PBool True])
              [''A'' \<mapsto> PStr ''x'', ''B'' \<mapsto> PStr ''y''] = Some w)"
proof -
  let ?ctx = "[''A'' \<mapsto> PStr ''x'', ''B'' \<mapsto> PStr ''y'']"
  let ?v = "PDict [(''name'', PStr ''hi {{ A }}''), (''run'', PList [PStr ''${B}'', PInt 3])]"
  let ?w = "PDict [(''name'', PStr ''hi x''), (''run'', PList [PStr ''y'', PInt 3])]"
  let ?u = "PStr ''a {{A}} b''"
  have a: "deep_interpolate ?v ?ctx = Some ?w"
    by code_simp
  from deep_interpolate_result[where v = ?v and ctx = ?ctx and w = ?w, THEN conjunct1] a
  have s: "shape ?w = shape ?v"
    and l: "list_all2 (\<lambda>s r. interpolate_string s ?ctx = Some r) (strings_of ?v) (strings_of ?w)"
    and d: "\<forall>r\<in>set (strings_of ?w). \<not> has_token dollar_token r"
    by blast+
  from l have l': "list_all2 (\<lambda>s r. interpolate_string s ?ctx = Some r)
       [''hi {{ A }}'', ''${B}''] [''hi x'', ''y'']"
    by simp
  from d have d': "\<not> has_token dollar_token ''hi x'' \<and> \<not> has_token dollar_token ''y''"
    by simp
  have e: "interpolate_string ''{{A}}-${B}-${C}'' ?ctx = Some ''x-y-''"
    by code_simp
  from deep_interpolate_result[where ctx = ?ctx and s = "''{{A}}-${B}-${C}''" and r = "''x-y-''",
      THEN conjunct2, THEN conjunct1] e
  have c: "\<exists>t. (replaces braces_token ?ctx)\<^sup>*\<^sup>* ''{{A}}-${B}-${C}'' t \<and> \<not> has_token braces_token t
         \<and> (replaces dollar_token ?ctx)\<^sup>*\<^sup>* t ''x-y-'' \<and> \<not> has_token dollar_token ''x-y-''"
    by blast
  have vals: "CHR ''$'' \<notin> set (ctx_str ?ctx key) \<and> CHR ''{'' \<notin> set (ctx_str ?ctx key)" for key
    by (simp add: ctx_str_def py_str_def)
  have b: "deep_interpolate ?u ?ctx = Some (PStr ''a x b'')"
    by code_simp
  from deep_interpolate_result[where v = ?u and ctx = ?ctx and w = "PStr ''a x b''",
      THEN conjunct1] b vals
  have n: "\<not> has_token braces_token ''a x b''"
    by simp
  from deep_interpolate_result[where v = "PList [PStr ''{{A}}{{ B }}'', PBool True]" and ctx = ?ctx,
      THEN conjunct2, THEN conjunct2, THEN conjunct2] vals
  have t: "\<exists>w. deep_interpolate (PList [PStr ''{{A}}{{ B }}'', PBool True]) ?ctx = Some w"
    by blast
  from a s l' d' c n t show ?thesis by blast
qed

section \<open>Process dispatch, repo resolution and file writing\<close>

lemma io_bind_simps [simp]:
  "io_bind (io_return x) f = f x"
  "io_bind (io_raise e) f = io_raise e"
  by (auto simp: io_bind_def io_return_def io_raise_def fun_eq_iff)

lemma io_bind_Inr: "m w = (Inr x, w') \<Longrightarrow> io_bind m f w = f x w'"
  by (simp add: io_bind_def)

lemma io_bind_Inl: "m w = (Inl e, w') \<Longrightarrow> io_bind m f w = (Inl e, w')"
  by (simp add: io_bind_def)

subsection \<open>Arguments that \<^verbatim>\<open>subprocess.run\<close> accepts\<close>

lemma args_error_strings:
  "\<forall>x\<in>set xs. \<exists>a. x = PStr a \<and> CHR 0x00 \<notin> set a \<Longrightarrow> args_error xs = None"
  by (induction xs) (auto simp: has_nul_def)

lemma args_error_non_string:
  "\<exists>x\<in>set xs. \<forall>a. x \<noteq> PStr a \<Longrightarrow> args_error xs \<noteq> None"
  by (induction xs) (auto split: pyval.splits)

lemma env_error_plain:
  "\<forall>kv\<in>set e. fst kv \<noteq> [] \<and> CHR ''='' \<notin> set (fst kv) \<and> CHR 0x00 \<notin> set (fst kv)
       \<and> CHR 0x00 \<notin> set (snd kv)
   \<Longrightarrow> env_error e = None"
proof (induction e)
  case Nil
  then show ?case by simp
next
  case (Cons kv e)
  then have "fst kv \<noteq> []" "CHR ''='' \<notin> set (fst kv)" by simp_all
  then have "CHR ''='' \<notin> set (tl (fst kv))" by (cases "fst kv") auto
  with Cons show ?case by (simp add: has_nul_def)
qed

lemma popen_accepts:
  assumes "xs \<noteq> []" and "\<forall>x\<in>set xs. \<exists>a. x = PStr a \<and> CHR 0x00 \<notin> set a"
    and "cwd = PNone \<or> (\<exists>c. cwd = PStr c \<and> CHR 0x00 \<notin> set c)"
    and "\<forall>e. env = Some e \<longrightarrow>
           (\<forall>kv\<in>set e. fst kv \<noteq> [] \<and> CHR ''='' \<notin> set (fst kv) \<and> CHR 0x00 \<notin> set (fst kv)
              \<and> CHR 0x00 \<notin> set (snd kv))"
  shows "popen_error pf (PList xs) cwd env = None"
proof -
  let ?e = "case env of None \<Rightarrow> [] | Some e \<Rightarrow> e"
  have env: "\<forall>kv\<in>set ?e. fst kv \<noteq> [] \<and> CHR ''='' \<notin> set (fst kv) \<and> CHR 0x00 \<notin> set (fst kv)
              \<and> CHR 0x00 \<notin> set (snd kv)"
    using assms(4) by (cases env) auto
  from assms(1,2) obtain exe xs' where xs: "xs = PStr exe # xs'" and exe: "CHR 0x00 \<notin> set exe"
    by (cases xs) auto
  have cwd: "cwd_error msg cwd = None" for msg
    using assms(3) by (auto simp: cwd_error_def has_nul_def)
  have names: "\<not> list_ex (\<lambda>kv. CHR ''='' \<in> set (fst kv)) ?e"
    using env by (auto simp: list_ex_iff)
  have nuls: "\<not> list_ex (\<lambda>kv. has_nul (fst kv) \<or> has_nul (snd kv)) ?e"
    using env by (auto simp: list_ex_iff has_nul_def)
  have path: "(case map_of ?e ''PATH'' of None \<Rightarrow> False | Some dirs \<Rightarrow> has_nul dirs) = False"
  proof (cases "map_of ?e ''PATH''")
    case None
    then show ?thesis by simp
  next
    case (Some dirs)
    then have "(''PATH'', dirs) \<in> set ?e" by (rule map_of_SomeD)
    with env have "CHR 0x00 \<notin> set dirs" by fastforce
    with Some show ?thesis by (simp add: has_nul_def)
  qed
  have posix: "posix_popen_error (PList xs) cwd env = None"
    unfolding posix_popen_error_def popen_args_def
    using names nuls path exe cwd args_error_strings[OF assms(2)]
    by (simp add: xs Let_def has_nul_def)
  have strs: "\<not> list_ex (\<lambda>x. case x of PStr s \<Rightarrow> False | _ \<Rightarrow> True) xs"
    "\<not> list_ex (\<lambda>x. case x of PStr s \<Rightarrow> has_nul s | _ \<Rightarrow> False) xs"
    using assms(2) by (auto simp: list_ex_iff has_nul_def)
  have windows: "windows_popen_error (PList xs) cwd env = None"
    unfolding windows_popen_error_def popen_args_def
    using strs cwd env_error_plain[OF env] by simp
  from posix windows show ?thesis by (simp add: popen_error_def)
qed

lemma popen_rejects_non_string:
  assumes "\<exists>x\<in>set xs. \<forall>a. x \<noteq> PStr a"
  shows "popen_error pf (PList xs) cwd env \<noteq> None"
proof -
  from assms obtain x xs' where xs: "xs = x # xs'" by (cases xs) auto
  have "posix_popen_error (PList xs) cwd env \<noteq> None"
    unfolding posix_popen_error_def popen_args_def
    using args_error_non_string[OF assms]
    by (auto simp: xs Let_def split: pyval.splits)
  moreover have "list_ex (\<lambda>x. case x of PStr s \<Rightarrow> False | _ \<Rightarrow> True) xs"
    using assms by (auto simp: list_ex_iff split: pyval.splits)
  then have "windows_popen_error (PList xs) cwd env \<noteq> None"
    unfolding windows_popen_error_def popen_args_def by simp
  ultimately show ?thesis by (simp add: popen_error_def)
qed

lemma subprocess_run_accepted:
  assumes "popen_error pf argv cwd env = None" and "spawn pf argv cwd env (nodes w) = (r, ns)"
  shows "subprocess_run pf argv cwd env w
         = ((case r of
               Exited rc \<Rightarrow> if rc = 0 then Inr () else Inl (CalledProcessError rc argv)
             | NotStarted \<Rightarrow> Inl OSError),
            w\<lparr>nodes := ns, trace := trace w @ [Spawn argv cwd env]\<rparr>)"
  using assms by (simp add: subprocess_run_def split: proc_result.splits)

lemma subprocess_run_rejected:
  "popen_error pf argv cwd env = Some e \<Longrightarrow> subprocess_run pf argv cwd env w = (Inl e, w)"
  by (simp add: subprocess_run_def)

lemma run_step_body:
  assumes "map_of d ''write_file'' = None" and "map_of d ''clone_repos'' = None"
    and "dict_get d ''run'' = PList items" and "\<not> cfg_dry_run cfg"
    and "step_env_of cfg d = Inr step_env"
  shows "step_body pf cfg idx d w
      = Some (run_items pf (truthy (dict_get_or d ''continue_on_error'' (PBool False)))
                (py_or (dict_get d ''shell'') (default_shell cfg))
                (py_or (dict_get d ''workdir'') PNone) step_env items
                (snd (io_print (Banner (py_or (dict_get d ''name'')
                                          (PStr (''step-'' @ dec_of_nat idx)))) w)))"
  using assms by (simp add: step_body_def Let_def run_action_def)

lemma run_items_next:
  assumes "safe_run_command pf itm shell_kind cwd (Some step_env) w = (Inr (), w1)"
  shows "run_items pf continue_on_error shell_kind cwd step_env (itm # rest) w
         = run_items pf continue_on_error shell_kind cwd step_env rest w1"
  using assms by (simp add: io_bind_def io_except_cpe_def)

text \<open>
  C5. A run-item that is a mapping with an \<^verbatim>\<open>argv\<close> list is passed to \<^verbatim>\<open>subprocess.run\<close> as
  that list, whatever the shell kind of the step is: when the list is accepted, which it
  is when it is a non-empty list of strings without null characters and the working
  directory and the environment are plain too, the operating system is asked for the
  process of exactly this list, and the outcome of the item is the outcome of this
  process; an empty list raises \<^verbatim>\<open>IndexError\<close> on POSIX and a list with an element that is
  not a string raises, and in both cases the operating system is not asked. A string is
  run as the last argument of \<^verbatim>\<open>powershell -NoProfile -ExecutionPolicy Bypass -Command\<close>
  when the shell kind is \<^verbatim>\<open>powershell\<close> and of \<^verbatim>\<open>/bin/bash -lc\<close> otherwise. An \<^verbatim>\<open>argv\<close> that is
  not a list, a mapping without \<^verbatim>\<open>argv\<close> and every other item raise \<^verbatim>\<open>ValueError\<close> and leave
  the world as it was. The shell kind of the items of a step is the \<^verbatim>\<open>shell\<close> of the step
  when it has one, and otherwise \<^verbatim>\<open>powershell\<close> for the OS key \<^verbatim>\<open>windows\<close> and \<^verbatim>\<open>bash\<close> for
  every other; the items are run from left to right with it.
\<close>

theorem safe_run_command_dispatch:
  "(map_of d ''argv'' = Some (PList xs) \<longrightarrow>
      safe_run_command pf (PDict d) shell_kind cwd env = subprocess_run pf (PList xs) cwd env
      \<and> (xs \<noteq> [] \<and> (\<forall>x\<in>set xs. \<exists>a. x = PStr a \<and> CHR 0x00 \<notin> set a)
            \<and> (cwd = PNone \<or> (\<exists>c. cwd = PStr c \<and> CHR 0x00 \<notin> set c))
            \<and> (\<forall>e. env = Some e \<longrightarrow>
                  (\<forall>kv\<in>set e. fst kv \<noteq> [] \<and> CHR ''='' \<notin> set (fst kv)
                      \<and> CHR 0x00 \<notin> set (fst kv) \<and> CHR 0x00 \<notin> set (snd kv)))
            \<and> spawn pf (PList xs) cwd env (nodes w) = (r, ns) \<longrightarrow>
          safe_run_command pf (PDict d) shell_kind cwd env w
            = ((case r of
                  Exited rc \<Rightarrow> if rc = 0 then Inr () else Inl (CalledProcessError rc (PList xs))
                | NotStarted \<Rightarrow> Inl OSError),
               w\<lparr>nodes := ns, trace := trace w @ [Spawn (PList xs) cwd env]\<rparr>))
      \<and> (xs = [] \<and> sysname pf \<noteq> ''windows'' \<longrightarrow>
          safe_run_command pf (PDict d) shell_kind cwd env w = (Inl IndexError, w))
      \<and> ((\<exists>x\<in>set xs. \<forall>a. x \<noteq> PStr a) \<longrightarrow>
          (\<exists>e. safe_run_command pf (PDict d) shell_kind cwd env w = (Inl e, w))))
   \<and> safe_run_command pf (PStr s) shell_kind cwd env
       = subprocess_run pf
           (if shell_kind = PStr ''powershell''
            then PList [PStr ''powershell'', PStr ''-NoProfile'', PStr ''-ExecutionPolicy'',
                        PStr ''Bypass'', PStr ''-Command'', PStr s]
            else PList [PStr ''/bin/bash'', PStr ''-lc'', PStr s]) cwd env
   \<and> (CHR 0x00 \<notin> set s \<and> (cwd = PNone \<or> (\<exists>c. cwd = PStr c \<and> CHR 0x00 \<notin> set c))
         \<and> (\<forall>e. env = Some e \<longrightarrow>
               (\<forall>kv\<in>set e. fst kv \<noteq> [] \<and> CHR ''='' \<notin> set (fst kv)
                   \<and> CHR 0x00 \<notin> set (fst kv) \<and> CHR 0x00 \<notin> set (snd kv)))
         \<and> line = (if shell_kind = PStr ''powershell''
                   then PList [PStr ''powershell'', PStr ''-NoProfile'', PStr ''-ExecutionPolicy'',
                               PStr ''Bypass'', PStr ''-Command'', PStr s]
                   else PList [PStr ''/bin/bash'', PStr ''-lc'', PStr s])
         \<and> spawn pf line cwd env (nodes w) = (r, ns) \<longrightarrow>
       safe_run_command pf (PStr s) shell_kind cwd env w
         = ((case r of
               Exited rc \<Rightarrow> if rc = 0 then Inr () else Inl (CalledProcessError rc line)
             | NotStarted \<Rightarrow> Inl OSError),
            w\<lparr>nodes := ns, trace := trace w @ [Spawn line cwd env]\<rparr>))
   \<and> (map_of d ''argv'' = Some v \<and> (\<forall>xs. v \<noteq> PList xs) \<longrightarrow>
       safe_run_command pf (PDict d) shell_kind cwd env w = (Inl (ValueError ''argv must be a list''), w))
   \<and> (map_of d ''argv'' = None \<longrightarrow>
       (\<exists>msg. safe_run_command pf (PDict d) shell_kind cwd env w = (Inl (ValueError msg), w)))
   \<and> ((\<forall>d. item \<noteq> PDict d) \<and> (\<forall>s. item \<noteq> PStr s) \<longrightarrow>
       (\<exists>msg. safe_run_command pf item shell_kind cwd env w = (Inl (ValueError msg), w)))
   \<and> (map_of st ''write_file'' = None \<and> map_of st ''clone_repos'' = None
        \<and> dict_get st ''run'' = PList items \<and> \<not> cfg_dry_run cfg
        \<and> step_env_of cfg st = Inr step_env \<longrightarrow>
      step_body pf cfg idx st w
        = Some (run_items pf (truthy (dict_get_or st ''continue_on_error'' (PBool False)))
                  (if truthy (dict_get st ''shell'') then dict_get st ''shell''
                   else if cfg_os cfg = ''windows'' then PStr ''powershell'' else PStr ''bash'')
                  (if truthy (dict_get st ''workdir'') then dict_get st ''workdir'' else PNone)
                  step_env items
                  (snd (io_print (Banner (py_or (dict_get st ''name'')
                                            (PStr (''step-'' @ dec_of_nat idx)))) w))))
   \<and> (safe_run_command pf itm shell_kind cwd (Some step_env) w = (Inr (), w1) \<longrightarrow>
      run_items pf continue_on_error shell_kind cwd step_env (itm # rest) w
        = run_items pf continue_on_error shell_kind cwd step_env rest w1)"
proof (intro conjI impI)
  assume a: "map_of d ''argv'' = Some (PList xs)"
  then show eq: "safe_run_command pf (PDict d) shell_kind cwd env = subprocess_run pf (PList xs) cwd env"
    by (simp add: safe_run_command_def run_process_argv_def)
  {
    assume h: "xs \<noteq> [] \<and> (\<forall>x\<in>set xs. \<exists>a. x = PStr a \<and> CHR 0x00 \<notin> set a)
            \<and> (cwd = PNone \<or> (\<exists>c. cwd = PStr c \<and> CHR 0x00 \<notin> set c))
            \<and> (\<forall>e. env = Some e \<longrightarrow>
                  (\<forall>kv\<in>set e. fst kv \<noteq> [] \<and> CHR ''='' \<notin> set (fst kv)
                      \<and> CHR 0x00 \<notin> set (fst kv) \<and> CHR 0x00 \<notin> set (snd kv)))
            \<and> spawn pf (PList xs) cwd env (nodes w) = (r, ns)"
    then have "popen_error pf (PList xs) cwd env = None"
      by (intro popen_accepts) blast+
    from subprocess_run_accepted[OF this, of w r ns] h
    show "safe_run_command pf (PDict d) shell_kind cwd env w
            = ((case r of
                  Exited rc \<Rightarrow> if rc = 0 then Inr () else Inl (CalledProcessError rc (PList xs))
                | NotStarted \<Rightarrow> Inl OSError),
               w\<lparr>nodes := ns, trace := trace w @ [Spawn (PList xs) cwd env]\<rparr>)"
      unfolding eq by blast
  }
  {
    assume "xs = [] \<and> sysname pf \<noteq> ''windows''"
    then have "popen_error pf (PList xs) cwd env = Some IndexError"
      by (simp add: popen_error_def posix_popen_error_def popen_args_def)
    from subprocess_run_rejected[OF this]
    show "safe_run_command pf (PDict d) shell_kind cwd env w = (Inl IndexError, w)"
      unfolding eq .
  }
  {
    assume "\<exists>x\<in>set xs. \<forall>a. x \<noteq> PStr a"
    from popen_rejects_non_string[OF this, of pf cwd env]
    obtain e where "popen_error pf (PList xs) cwd env = Some e" by auto
    from subprocess_run_rejected[OF this]
    show "\<exists>e. safe_run_command pf (PDict d) shell_kind cwd env w = (Inl e, w)"
      unfolding eq by blast
  }
next
  show sh: "safe_run_command pf (PStr s) shell_kind cwd env
       = subprocess_run pf
           (if shell_kind = PStr ''powershell''
            then PList [PStr ''powershell'', PStr ''-NoProfile'', PStr ''-ExecutionPolicy'',
                        PStr ''Bypass'', PStr ''-Command'', PStr s]
            else PList [PStr ''/bin/bash'', PStr ''-lc'', PStr s]) cwd env"
    by (simp add: safe_run_command_def run_process_shell_def shell_argv_def)
  assume h: "CHR 0x00 \<notin> set s \<and> (cwd = PNone \<or> (\<exists>c. cwd = PStr c \<and> CHR 0x00 \<notin> set c))
         \<and> (\<forall>e. env = Some e \<longrightarrow>
               (\<forall>kv\<in>set e. fst kv \<noteq> [] \<and> CHR ''='' \<notin> set (fst kv)
                   \<and> CHR 0x00 \<notin> set (fst kv) \<and> CHR 0x00 \<notin> set (snd kv)))
         \<and> line = (if shell_kind = PStr ''powershell''
                   then PList [PStr ''powershell'', PStr ''-NoProfile'', PStr ''-ExecutionPolicy'',
                               PStr ''Bypass'', PStr ''-Command'', PStr s]
                   else PList [PStr ''/bin/bash'', PStr ''-lc'', PStr s])
         \<and> spawn pf line cwd env (nodes w) = (r, ns)"
  then obtain ys where line: "line = PList ys" and ys: "ys \<noteq> []"
    "\<forall>x\<in>set ys. \<exists>a. x = PStr a \<and> CHR 0x00 \<notin> set a"
    by (cases "shell_kind = PStr ''powershell''") auto
  from h ys have "popen_error pf (PList ys) cwd env = None"
    by (intro popen_accepts) blast+
  then have "popen_error pf line cwd env = None" by (simp add: line)
  moreover from h have sp: "spawn pf line cwd env (nodes w) = (r, ns)" by blast
  ultimately have "subprocess_run pf line cwd env w
         = ((case r of
               Exited rc \<Rightarrow> if rc = 0 then Inr () else Inl (CalledProcessError rc line)
             | NotStarted \<Rightarrow> Inl OSError),
            w\<lparr>nodes := ns, trace := trace w @ [Spawn line cwd env]\<rparr>)"
    by (rule subprocess_run_accepted)
  moreover from h have "(if shell_kind = PStr ''powershell''
                   then PList [PStr ''powershell'', PStr ''-NoProfile'', PStr ''-ExecutionPolicy'',
                               PStr ''Bypass'', PStr ''-Command'', PStr s]
                   else PList [PStr ''/bin/bash'', PStr ''-lc'', PStr s]) = line"
    by simp
  ultimately show "safe_run_command pf (PStr s) shell_kind cwd env w
         = ((case r of
               Exited rc \<Rightarrow> if rc = 0 then Inr () else Inl (CalledProcessError rc line)
             | NotStarted \<Rightarrow> Inl OSError),
            w\<lparr>nodes := ns, trace := trace w @ [Spawn line cwd env]\<rparr>)"
    unfolding sh by simp
next
  assume "map_of d ''argv'' = Some v \<and> (\<forall>xs. v \<noteq> PList xs)"
  then show "safe_run_command pf (PDict d) shell_kind cwd env w
      = (Inl (ValueError ''argv must be a list''), w)"
    by (cases v) (auto simp: safe_run_command_def io_raise_def)
next
  assume "map_of d ''argv'' = None"
  then show "\<exists>msg. safe_run_command pf (PDict d) shell_kind cwd env w = (Inl (ValueError msg), w)"
    by (simp add: safe_run_command_def io_raise_def)
next
  assume "(\<forall>d. item \<noteq> PDict d) \<and> (\<forall>s. item \<noteq> PStr s)"
  then show "\<exists>msg. safe_run_command pf item shell_kind cwd env w = (Inl (ValueError msg), w)"
    by (cases item) (auto simp: safe_run_command_def io_raise_def)
next
  assume "map_of st ''write_file'' = None \<and> map_of st ''clone_repos'' = None
        \<and> dict_get st ''run'' = PList items \<and> \<not> cfg_dry_run cfg
        \<and> step_env_of cfg st = Inr step_env"
  then have "step_body pf cfg idx st w
      = Some (run_items pf (truthy (dict_get_or st ''continue_on_error'' (PBool False)))
                (py_or (dict_get st ''shell'') (default_shell cfg))
                (py_or (dict_get st ''workdir'') PNone) step_env items
                (snd (io_print (Banner (py_or (dict_get st ''name'')
                                          (PStr (''step-'' @ dec_of_nat idx)))) w)))"
    by (intro run_step_body) simp_all
  then show "step_body pf cfg idx st w
        = Some (run_items pf (truthy (dict_get_or st ''continue_on_error'' (PBool False)))
                  (if truthy (dict_get st ''shell'') then dict_get st ''shell''
                   else if cfg_os cfg = ''windows'' then PStr ''powershell'' else PStr ''bash'')
                  (if truthy (dict_get st ''workdir'') then dict_get st ''workdir'' else PNone)
                  step_env items
                  (snd (io_print (Banner (py_or (dict_get st ''name'')
                                            (PStr (''step-'' @ dec_of_nat idx)))) w)))"
    by (simp add: py_or_def default_shell_def)
next
  assume "safe_run_command pf itm shell_kind cwd (Some step_env) w = (Inr (), w1)"
  then show "run_items pf continue_on_error shell_kind cwd step_env (itm # rest) w
        = run_items pf continue_on_error shell_kind cwd step_env rest w1"
    by (rule run_items_next)
qed

theorem safe_run_command_dispatch_witness:
  "safe_run_command example_platform (PDict [(''argv'', PList [PStr ''echo'', PStr ''hi''])])
       (PStr ''powershell'') PNone None example_world
     = (Inr (), example_world\<lparr>nodes := nodes example_world,
                              trace := trace example_world
                                @ [Spawn (PList [PStr ''echo'', PStr ''hi'']) PNone None]\<rparr>)
   \<and> safe_run_command example_platform (PDict [(''argv'', PList [])]) (PStr ''bash'') PNone None
       example_world = (Inl IndexError, example_world)
   \<and> (\<exists>e. safe_run_command example_platform (PDict [(''argv'', PList [PStr ''echo'', PInt 1])])
             (PStr ''bash'') PNone None example_world = (Inl e, example_world))
   \<and> safe_run_command example_platform (PStr ''Get-Date'') (PStr ''powershell'') PNone None
       example_world
     = (Inr (), example_world\<lparr>nodes := nodes example_world,
                              trace := trace example_world
                                @ [Spawn (PList [PStr ''powershell'', PStr ''-NoProfile'',
                                                 PStr ''-ExecutionPolicy'', PStr ''Bypass'',
                                                 PStr ''-Command'', PStr ''Get-Date'']) PNone None]\<rparr>)
   \<and> safe_run_command example_platform (PStr ''false'') (PStr ''bash'') PNone None example_world
     = (Inl (CalledProcessError 1 (PList [PStr ''/bin/bash'', PStr ''-lc'', PStr ''false''])),
        example_world\<lparr>nodes := nodes example_world,
                      trace := trace example_world
                        @ [Spawn (PList [PStr ''/bin/bash'', PStr ''-lc'', PStr ''false'']) PNone None]\<rparr>)
   \<and> safe_run_command example_platform (PDict [(''argv'', PStr ''echo hi'')])
       (PStr ''bash'') PNone None example_world
     = (Inl (ValueError ''argv must be a list''), example_world)
   \<and> (\<exists>msg. safe_run_command example_platform (PDict [(''cmd'', PStr ''echo hi'')])
       (PStr ''bash'') PNone None example_world = (Inl (ValueError msg), example_world))
   \<and> (\<exists>msg. safe_run_command example_platform (PInt 5)
       (PStr ''bash'') PNone None example_world = (Inl (ValueError msg), example_world))
   \<and> map_option (\<lambda>r. (fst r, spawned (trace (snd r))))
       (run_spec example_platform ''spec.yaml'' (Some shell_spec) False [] example_world)
     = Some (Inr (),
         [PList [PStr ''powershell'', PStr ''-NoProfile'', PStr ''-ExecutionPolicy'',
                 PStr ''Bypass'', PStr ''-Command'', PStr ''Get-Date''],
          PList [PStr ''echo'', PStr ''hi''],
          PList [PStr ''/bin/bash'', PStr ''-lc'', PStr ''echo plain'']])
   \<and> map_option (\<lambda>r. (fst r, spawned (trace (snd r))))
       (run_spec example_platform ''spec.yaml'' (Some shell_spec) False [] windows_world)
     = Some (Inr (),
         [PList [PStr ''powershell'', PStr ''-NoProfile'', PStr ''-ExecutionPolicy'',
                 PStr ''Bypass'', PStr ''-Command'', PStr ''Get-Date''],
          PList [PStr ''echo'', PStr ''hi''],
          PList [PStr ''powershell'', PStr ''-NoProfile'', PStr ''-ExecutionPolicy'',
                 PStr ''Bypass'', PStr ''-Command'', PStr ''echo plain'']])"
proof -
  let ?ps = "PList [PStr ''powershell'', PStr ''-NoProfile'', PStr ''-ExecutionPolicy'',
                    PStr ''Bypass'', PStr ''-Command'', PStr ''Get-Date'']"
  let ?sh = "PList [PStr ''/bin/bash'', PStr ''-lc'', PStr ''false'']"
  have posix: "sysname example_platform \<noteq> ''windows''"
    by (simp add: example_platform_def)
  have s1: "spawn example_platform (PList [PStr ''echo'', PStr ''hi'']) PNone None (nodes example_world)
      = (Exited 0, nodes example_world)"
    by (simp add: example_platform_def example_spawn_def)
  have s2: "spawn example_platform ?ps PNone None (nodes example_world) = (Exited 0, nodes example_world)"
    by (simp add: example_platform_def example_spawn_def)
  have s3: "spawn example_platform ?sh PNone None (nodes example_world) = (Exited 1, nodes example_world)"
    by (simp add: example_platform_def example_spawn_def)
  note a = safe_run_command_dispatch[where d = "[(''argv'', PList [PStr ''echo'', PStr ''hi''])]"
      and xs = "[PStr ''echo'', PStr ''hi'']" and pf = example_platform
      and shell_kind = "PStr ''powershell''" and cwd = PNone and env = None and w = example_world
      and r = "Exited 0" and ns = "nodes example_world", THEN conjunct1]
  have "safe_run_command example_platform
       (PDict [(''argv'', PList [PStr ''echo'', PStr ''hi''])]) (PStr ''powershell'') PNone None
       example_world
     = ((case Exited 0 of
           Exited rc \<Rightarrow>
             if rc = 0 then Inr ()
             else Inl (CalledProcessError rc (PList [PStr ''echo'', PStr ''hi'']))
         | NotStarted \<Rightarrow> Inl OSError),
        example_world\<lparr>nodes := nodes example_world,
                      trace := trace example_world
                        @ [Spawn (PList [PStr ''echo'', PStr ''hi'']) PNone None]\<rparr>)"
    by (rule a[THEN mp, THEN conjunct2, THEN conjunct1, THEN mp]) (simp_all add: s1)
  then have c1: "safe_run_command example_platform
       (PDict [(''argv'', PList [PStr ''echo'', PStr ''hi''])]) (PStr ''powershell'') PNone None
       example_world
     = (Inr (), example_world\<lparr>nodes := nodes example_world,
                              trace := trace example_world
                                @ [Spawn (PList [PStr ''echo'', PStr ''hi'']) PNone None]\<rparr>)"
    by simp
  note b = safe_run_command_dispatch[where d = "[(''argv'', PList [])]" and xs = "[]"
      and pf = example_platform and shell_kind = "PStr ''bash''" and cwd = PNone and env = None
      and w = example_world, THEN conjunct1]
  have c2: "safe_run_command example_platform (PDict [(''argv'', PList [])])
       (PStr ''bash'') PNone None example_world = (Inl IndexError, example_world)"
    by (rule b[THEN mp, THEN conjunct2, THEN conjunct2, THEN conjunct1, THEN mp])
       (simp_all add: posix)
  note c = safe_run_command_dispatch[where d = "[(''argv'', PList [PStr ''echo'', PInt 1])]"
      and xs = "[PStr ''echo'', PInt 1]" and pf = example_platform and shell_kind = "PStr ''bash''"
      and cwd = PNone and env = None and w = example_world, THEN conjunct1]
  have c3: "\<exists>e. safe_run_command example_platform
       (PDict [(''argv'', PList [PStr ''echo'', PInt 1])]) (PStr ''bash'') PNone None example_world
       = (Inl e, example_world)"
    by (rule c[THEN mp, THEN conjunct2, THEN conjunct2, THEN conjunct2, THEN mp]) simp_all
  note d = safe_run_command_dispatch[where s = "''Get-Date''" and pf = example_platform
      and shell_kind = "PStr ''powershell''" and cwd = PNone and env = None and w = example_world
      and line = ?ps and r = "Exited 0" and ns = "nodes example_world",
      THEN conjunct2, THEN conjunct2, THEN conjunct1]
  from d s2 have c4: "safe_run_command example_platform (PStr ''Get-Date'') (PStr ''powershell'')
       PNone None example_world
     = (Inr (), example_world\<lparr>nodes := nodes example_world,
                              trace := trace example_world @ [Spawn ?ps PNone None]\<rparr>)"
    by simp
  note e = safe_run_command_dispatch[where s = "''false''" and pf = example_platform
      and shell_kind = "PStr ''bash''" and cwd = PNone and env = None and w = example_world
      and line = ?sh and r = "Exited 1" and ns = "nodes example_world",
      THEN conjunct2, THEN conjunct2, THEN conjunct1]
  from e s3 have c5: "safe_run_command example_platform (PStr ''false'') (PStr ''bash'')
       PNone None example_world
     = (Inl (CalledProcessError 1 ?sh),
        example_world\<lparr>nodes := nodes example_world,
                      trace := trace example_world @ [Spawn ?sh PNone None]\<rparr>)"
    by simp
  note f = safe_run_command_dispatch[where d = "[(''argv'', PStr ''echo hi'')]"
      and v = "PStr ''echo hi''" and pf = example_platform and shell_kind = "PStr ''bash''"
      and cwd = PNone and env = None and w = example_world]
  from f have c6: "safe_run_command example_platform (PDict [(''argv'', PStr ''echo hi'')])
       (PStr ''bash'') PNone None example_world
     = (Inl (ValueError ''argv must be a list''), example_world)"
    by simp
  note g = safe_run_command_dispatch[where d = "[(''cmd'', PStr ''echo hi'')]"
      and pf = example_platform and shell_kind = "PStr ''bash''"
      and cwd = PNone and env = None and w = example_world]
  from g have c7: "\<exists>msg. safe_run_command example_platform (PDict [(''cmd'', PStr ''echo hi'')])
       (PStr ''bash'') PNone None example_world = (Inl (ValueError msg), example_world)"
    by simp
  note h = safe_run_command_dispatch[where item = "PInt 5"
      and pf = example_platform and shell_kind = "PStr ''bash''"
      and cwd = PNone and env = None and w = example_world]
  from h have c8: "\<exists>msg. safe_run_command example_platform (PInt 5)
       (PStr ''bash'') PNone None example_world = (Inl (ValueError msg), example_world)"
    by simp
  have r1: "map_option (\<lambda>r. (fst r, spawned (trace (snd r))))
       (run_spec example_platform ''spec.yaml'' (Some shell_spec) False [] example_world)
     = Some (Inr (),
         [?ps, PList [PStr ''echo'', PStr ''hi''],
          PList [PStr ''/bin/bash'', PStr ''-lc'', PStr ''echo plain'']])"
    by code_simp
  have r2: "map_option (\<lambda>r. (fst r, spawned (trace (snd r))))
       (run_spec example_platform ''spec.yaml'' (Some shell_spec) False [] windows_world)
     = Some (Inr (),
         [?ps, PList [PStr ''echo'', PStr ''hi''],
          PList [PStr ''powershell'', PStr ''-NoProfile'', PStr ''-ExecutionPolicy'',
                 PStr ''Bypass'', PStr ''-Command'', PStr ''echo plain'']])"
    by code_simp
  from c1 c2 c3 c4 c5 c6 c7 c8 r1 r2 show ?thesis by blast
qed

text \<open>
  C6. The precedence of \<^verbatim>\<open>resolve_repo_url\<close>: a non-empty \<^verbatim>\<open>url\<close> is returned as it is,
  whatever \<^verbatim>\<open>org\<close>, \<^verbatim>\<open>name\<close> and the default are; without it and with a name, a non-empty
  \<^verbatim>\<open>org\<close> of the entry is used and the default is not looked at; without that, a non-empty
  default; without either, a name with a \<^verbatim>\<open>/\<close> is the \<^verbatim>\<open>org/name\<close> shorthand, and any other
  name fails; an entry with neither \<^verbatim>\<open>url\<close> nor \<^verbatim>\<open>name\<close> fails. Present means present and
  non-empty, as in \<^verbatim>\<open>entry.get("org") or default_org\<close>.
\<close>

theorem resolve_repo_url_precedence:
  "(truthy (dict_get entry ''url'') \<longrightarrow>
      resolve_repo_url entry default_org = Inr (dict_get entry ''url''))
   \<and> (\<not> truthy (dict_get entry ''url'') \<and> truthy (dict_get entry ''name'')
        \<and> truthy (dict_get entry ''org'') \<longrightarrow>
      resolve_repo_url entry default_org
        = Inr (PStr (''https://github.com/'' @ py_str (dict_get entry ''org'') @ ''/''
                     @ py_str (dict_get entry ''name'') @ ''.git'')))
   \<and> (\<not> truthy (dict_get entry ''url'') \<and> truthy (dict_get entry ''name'')
        \<and> \<not> truthy (dict_get entry ''org'') \<and> truthy default_org \<longrightarrow>
      resolve_repo_url entry default_org
        = Inr (PStr (''https://github.com/'' @ py_str default_org @ ''/''
                     @ py_str (dict_get entry ''name'') @ ''.git'')))
   \<and> (\<not> truthy (dict_get entry ''url'') \<and> dict_get entry ''name'' = PStr n \<and> n \<noteq> []
        \<and> \<not> truthy (dict_get entry ''org'') \<and> \<not> truthy default_org \<longrightarrow>
      (CHR ''/'' \<in> set n \<longrightarrow>
         resolve_repo_url entry default_org = Inr (PStr (''https://github.com/'' @ n @ ''.git'')))
      \<and> (CHR ''/'' \<notin> set n \<longrightarrow>
         (\<exists>msg. resolve_repo_url entry default_org = Inl (ValueError msg))))
   \<and> (\<not> truthy (dict_get entry ''url'') \<and> \<not> truthy (dict_get entry ''name'') \<longrightarrow>
      (\<exists>msg. resolve_repo_url entry default_org = Inl (ValueError msg)))"
  by (auto simp: resolve_repo_url_def py_or_def contains_slash_def github_url_def py_str_def
           Let_def)

theorem resolve_repo_url_precedence_witness:
  "resolve_repo_url [(''name'', PStr ''svc''), (''org'', PStr ''custom''),
                     (''url'', PStr ''https://example.org/x.git'')] (PStr ''acme'')
     = Inr (PStr ''https://example.org/x.git'')
   \<and> resolve_repo_url [(''name'', PStr ''svc''), (''org'', PStr ''custom'')] (PStr ''acme'')
     = Inr (PStr ''https://github.com/custom/svc.git'')
   \<and> resolve_repo_url [(''name'', PStr ''svc'')] (PStr ''acme'')
     = Inr (PStr ''https://github.com/acme/svc.git'')
   \<and> resolve_repo_url [(''name'', PStr ''team/svc'')] PNone
     = Inr (PStr ''https://github.com/team/svc.git'')
   \<and> (\<exists>msg. resolve_repo_url [(''name'', PStr ''svc'')] PNone = Inl (ValueError msg))
   \<and> (\<exists>msg. resolve_repo_url [(''org'', PStr ''custom'')] (PStr ''acme'') = Inl (ValueError msg))"
proof -
  have "resolve_repo_url [(''name'', PStr ''svc''), (''org'', PStr ''custom''),
                     (''url'', PStr ''https://example.org/x.git'')] (PStr ''acme'')
     = Inr (PStr ''https://example.org/x.git'')"
    using resolve_repo_url_precedence[of "[(''name'', PStr ''svc''), (''org'', PStr ''custom''),
                     (''url'', PStr ''https://example.org/x.git'')]" "PStr ''acme''"]
    by (simp add: dict_get_def)
  moreover have "resolve_repo_url [(''name'', PStr ''svc''), (''org'', PStr ''custom'')] (PStr ''acme'')
     = Inr (PStr ''https://github.com/custom/svc.git'')"
    using resolve_repo_url_precedence[of "[(''name'', PStr ''svc''), (''org'', PStr ''custom'')]"
        "PStr ''acme''"]
    by (simp add: dict_get_def py_str_def)
  moreover have "resolve_repo_url [(''name'', PStr ''svc'')] (PStr ''acme'')
     = Inr (PStr ''https://github.com/acme/svc.git'')"
    using resolve_repo_url_precedence[of "[(''name'', PStr ''svc'')]" "PStr ''acme''"]
    by (simp add: dict_get_def py_str_def)
  moreover have "resolve_repo_url [(''name'', PStr ''team/svc'')] PNone
     = Inr (PStr ''https://github.com/team/svc.git'')"
    using resolve_repo_url_precedence[of "[(''name'', PStr ''team/svc'')]" PNone "''team/svc''"]
    by (simp add: dict_get_def)
  moreover have "\<exists>msg. resolve_repo_url [(''name'', PStr ''svc'')] PNone = Inl (ValueError msg)"
    using resolve_repo_url_precedence[of "[(''name'', PStr ''svc'')]" PNone "''svc''"]
    by (simp add: dict_get_def)
  moreover have "\<exists>msg. resolve_repo_url [(''org'', PStr ''custom'')] (PStr ''acme'') = Inl (ValueError msg)"
    using resolve_repo_url_precedence[of "[(''org'', PStr ''custom'')]" "PStr ''acme''"]
    by (simp add: dict_get_def)
  ultimately show ?thesis by blast
qed

subsection \<open>Text in files\<close>











lemma utf8_encode_append [simp]: "utf8_encode (a @ b) = utf8_encode a @ utf8_encode b"
  by (simp add: utf8_encode_def)







subsection \<open>Writing a file\<close>















section \<open>Properties of the step engine\<close>

lemma and_then_simps [simp]:
  "and_then None k = None"
  "and_then (Some (Inl e, w)) k = Some (Inl e, w)"
  "and_then (Some (Inr u, w)) k = k w"
  by (simp_all add: and_then_def)

lemma and_then_assoc:
  "and_then (and_then r k) k' = and_then r (\<lambda>w. and_then (k w) k')"
  by (auto simp: and_then_def split: option.splits sum.splits prod.splits)

lemma run_steps_append:
  "run_steps pf cfg idx (xs @ ys) w
     = and_then (run_steps pf cfg idx xs w) (run_steps pf cfg (idx + length xs) ys)"
proof (induction xs arbitrary: idx w)
  case Nil
  then show ?case by simp
next
  case (Cons x xs)
  have "run_steps pf cfg idx ((x # xs) @ ys) w
      = and_then (run_step pf cfg idx x w) (run_steps pf cfg (Suc idx) (xs @ ys))"
    by simp
  also have "run_steps pf cfg (Suc idx) (xs @ ys)
      = (\<lambda>w'. and_then (run_steps pf cfg (Suc idx) xs w')
                 (run_steps pf cfg (idx + length (x # xs)) ys))"
    using Cons.IH[of "Suc idx"] by (simp add: fun_eq_iff)
  finally show ?case by (simp add: and_then_assoc)
qed

lemma run_steps_fun:
  "run_steps pf cfg idx [] = (\<lambda>w. Some (Inr (), w))"
  "run_steps pf cfg idx (x # xs)
     = (\<lambda>w. and_then (run_step pf cfg idx x w) (run_steps pf cfg (Suc idx) xs))"
  by (simp_all add: fun_eq_iff)

subsection \<open>The workspace-root guard\<close>

text \<open>
  C1. \<^verbatim>\<open>run_spec\<close> has no workspace-root guard. On the document of the repository's own test
  of the guard, with the directory of \<^verbatim>\<open>WORKSPACE_ROOT\<close> in place, the run returns normally:
  the banner is printed, the step's command is run and the closing line is printed.
\<close>

theorem guard_not_applied:
  "path_exists example_world
     (to_path example_platform (home_override (environ example_world)) ''~/dev/workspace'')
   \<and> map_option (\<lambda>r. (fst r, trace (snd r)))
       (run_spec example_platform ''spec.yaml'' (Some guard_spec) False [] example_world)
     = Some (Inr (),
         [Print (Banner (PStr ''Dummy step'')),
          Spawn (PList [PStr ''/bin/bash'', PStr ''-lc'', PStr ''echo should-not-run'']) PNone
            (Some [(''FORGE_OS'', ''ubuntu''), (''FORGE_HOME'', ''/home''),
                   (''HOME'', ''/home''), (''USERPROFILE'', ''/home'')]),
          Print AllStepsComplete])"
  by code_simp

subsection \<open>Guards\<close>

lemma operator_chars:
  "\<not> is_space (CHR ''='')" "\<not> is_space (CHR ''!'')"
  "\<not> is_ident_char (CHR ''='')" "\<not> is_ident_char (CHR ''!'')"
  by (simp_all add: is_space_def is_ident_char_def is_ident_start_def)

lemma newline_is_space: "is_space (CHR 0x0A)"
  by (simp add: is_space_def)

lemma when_value_form:
  assumes "when_value t = Some v"
  shows "\<exists>ws2 ws3. t = ws2 @ v @ ws3 \<and> (\<forall>c\<in>set (ws2 @ ws3). is_space c)
           \<and> v \<noteq> [] \<and> CHR 0x0A \<notin> set v"
proof (cases "dropWhile is_space t = []")
  case False
  let ?t' = "dropWhile is_space t"
  from assms False have v: "v = rev (dropWhile is_space (rev ?t'))" and nl: "CHR 0x0A \<notin> set v"
    by (auto simp: when_value_def Let_def split: if_splits)
  let ?ws3 = "rev (takeWhile is_space (rev ?t'))"
  have "rev (dropWhile is_space (rev ?t')) @ ?ws3
      = rev (takeWhile is_space (rev ?t') @ dropWhile is_space (rev ?t'))"
    by (simp only: rev_append)
  also have "\<dots> = rev (rev ?t')" by (simp only: takeWhile_dropWhile_id)
  also have "\<dots> = ?t'" by simp
  finally have "v @ ?ws3 = ?t'" unfolding v .
  then have t': "?t' = v @ ?ws3" by (rule sym)
  have "t = takeWhile is_space t @ ?t'" by simp
  with t' have "t = takeWhile is_space t @ v @ ?ws3" by simp
  moreover have "\<forall>c\<in>set (takeWhile is_space t @ ?ws3). is_space c"
    by (auto dest: set_takeWhileD)
  moreover have "v \<noteq> []"
  proof -
    from False have "\<not> is_space (hd ?t')" by (rule hd_dropWhile)
    moreover from False have "hd ?t' \<in> set (rev ?t')" by simp
    ultimately have "dropWhile is_space (rev ?t') \<noteq> []"
      by (auto simp: dropWhile_eq_Nil_conv)
    with v show ?thesis by simp
  qed
  ultimately show ?thesis using nl by blast
next
  case True
  then have sp: "\<forall>c\<in>set t. is_space c" by (simp add: dropWhile_eq_Nil_conv)
  from assms True obtain c cs where f: "filter (\<lambda>c. c \<noteq> CHR 0x0A) t = c # cs"
    and v: "v = [last (c # cs)]"
    by (auto simp: when_value_def Let_def split: list.splits)
  from f have "filter (\<lambda>c. c \<noteq> CHR 0x0A) t \<noteq> []" by simp
  then have "\<exists>x\<in>set t. x \<noteq> CHR 0x0A" by (simp add: filter_empty_conv)
  then have "\<exists>ys x zs. t = ys @ x # zs \<and> x \<noteq> CHR 0x0A \<and> (\<forall>z\<in>set zs. \<not> z \<noteq> CHR 0x0A)"
    by (rule split_list_last_prop)
  then obtain ys x zs where s: "t = ys @ x # zs" and x: "x \<noteq> CHR 0x0A"
    and zs: "\<forall>z\<in>set zs. \<not> z \<noteq> CHR 0x0A"
    by (elim exE conjE)
  from zs have "filter (\<lambda>c. c \<noteq> CHR 0x0A) zs = []" by (simp add: filter_empty_conv)
  with s x have "filter (\<lambda>c. c \<noteq> CHR 0x0A) t = filter (\<lambda>c. c \<noteq> CHR 0x0A) ys @ [x]" by simp
  with f have "c # cs = filter (\<lambda>c. c \<noteq> CHR 0x0A) ys @ [x]" by simp
  then have "last (c # cs) = last (filter (\<lambda>c. c \<noteq> CHR 0x0A) ys @ [x])" by (rule arg_cong)
  then have "last (c # cs) = x" by simp
  with v have "v = [x]" by simp
  with s sp x show ?thesis by (intro exI[of _ ys] exI[of _ zs]) auto
qed

lemma parse_when_sound:
  assumes "parse_when g = Some (k, is_eq, v)"
  shows "guard_form g k is_eq v"
proof -
  from assms obtain c r where g: "dropWhile is_space g = c # r" and c: "is_ident_start c"
    by (auto simp: parse_when_def split: list.splits if_splits)
  from assms g c obtain a b t
    where o: "dropWhile is_space (dropWhile is_ident_char r) = a # b # t"
      and ab: "(a = CHR ''='' \<or> a = CHR ''!'') \<and> b = CHR ''=''"
    by (auto simp: parse_when_def split: list.splits if_splits)
  from assms g c o ab have wv: "when_value t = Some v" and k: "k = c # takeWhile is_ident_char r"
    and e: "is_eq = (a = CHR ''='')"
    by (auto simp: parse_when_def split: option.splits)
  from when_value_form[OF wv] obtain ws2 ws3 where t: "t = ws2 @ v @ ws3"
    and sp: "\<forall>c\<in>set (ws2 @ ws3). is_space c" and v: "v \<noteq> []" "CHR 0x0A \<notin> set v"
    by blast
  let ?ws0 = "takeWhile is_space g"
  let ?ws1 = "takeWhile is_space (dropWhile is_ident_char r)"
  have op: "[a, b] = (if is_eq then ''=='' else ''!='')" using ab e by auto
  have "g = ?ws0 @ dropWhile is_space g" by simp
  also have "dropWhile is_space g = c # (takeWhile is_ident_char r @ dropWhile is_ident_char r)"
    using g by simp
  also have "dropWhile is_ident_char r = ?ws1 @ dropWhile is_space (dropWhile is_ident_char r)"
    by simp
  finally have "g = ?ws0 @ k @ ?ws1 @ [a, b] @ ws2 @ v @ ws3"
    using o k t by simp
  then have "g = ?ws0 @ k @ ?ws1 @ (if is_eq then ''=='' else ''!='') @ ws2 @ v @ ws3"
    unfolding op .
  moreover have "\<forall>c\<in>set (?ws0 @ ?ws1 @ ws2 @ ws3). is_space c"
    using sp by (auto dest: set_takeWhileD)
  moreover have "is_identifier k"
    using k c by (auto simp: is_identifier_def dest: set_takeWhileD)
  ultimately show ?thesis using v unfolding guard_form_def by blast
qed

lemma when_value_complete:
  assumes "\<forall>c\<in>set (ws2 @ ws3). is_space c" and "v \<noteq> []" and "CHR 0x0A \<notin> set v"
  shows "when_value (ws2 @ v @ ws3) \<noteq> None"
proof -
  let ?t = "ws2 @ v @ ws3"
  have d: "dropWhile is_space ?t = dropWhile is_space (v @ ws3)"
    using assms(1) by (simp add: dropWhile_append2)
  show ?thesis
  proof (cases "dropWhile is_space ?t = []")
    case True
    from assms(2) have hv: "hd v \<in> set v" by simp
    with assms(3) have "hd v \<in> set ?t" "hd v \<noteq> CHR 0x0A" by auto
    then have "filter (\<lambda>c. c \<noteq> CHR 0x0A) ?t \<noteq> []"
      by (auto simp: filter_empty_conv)
    with True show ?thesis by (auto simp: when_value_def Let_def split: list.splits)
  next
    case False
    have nv: "\<exists>x\<in>set v. \<not> is_space x"
    proof (rule ccontr)
      assume "\<not> (\<exists>x\<in>set v. \<not> is_space x)"
      with assms(1) have "\<forall>x\<in>set (v @ ws3). is_space x" by auto
      then have "dropWhile is_space (v @ ws3) = []" by (simp add: dropWhile_eq_Nil_conv)
      with d False show False by simp
    qed
    then obtain x where "x \<in> set v" "\<not> is_space x" by blast
    from dropWhile_append1[of x v is_space ws3] this d
    have t': "dropWhile is_space ?t = dropWhile is_space v @ ws3" by simp
    have "dropWhile is_space (rev (dropWhile is_space v @ ws3))
        = dropWhile is_space (rev ws3 @ rev (dropWhile is_space v))"
      by simp
    also have "\<dots> = dropWhile is_space (rev (dropWhile is_space v))"
      using assms(1) by (intro dropWhile_append2) auto
    finally have "dropWhile is_space (rev (dropWhile is_space v @ ws3))
        = dropWhile is_space (rev (dropWhile is_space v))" .
    then have "set (rev (dropWhile is_space (rev (dropWhile is_space ?t)))) \<subseteq> set v"
      unfolding t' by (auto dest!: set_dropWhileD)
    with assms(3) have "CHR 0x0A \<notin> set (rev (dropWhile is_space (rev (dropWhile is_space ?t))))"
      by blast
    with False show ?thesis by (simp add: when_value_def Let_def)
  qed
qed

lemma parse_when_complete:
  assumes "guard_form g k is_eq v"
  shows "\<exists>v'. parse_when g = Some (k, is_eq, v')"
proof -
  from assms obtain ws0 ws1 ws2 ws3
    where g: "g = ws0 @ k @ ws1 @ (if is_eq then ''=='' else ''!='') @ ws2 @ v @ ws3"
      and sp: "\<forall>c\<in>set (ws0 @ ws1 @ ws2 @ ws3). is_space c"
      and id: "is_identifier k" and v: "v \<noteq> []" "CHR 0x0A \<notin> set v"
    unfolding guard_form_def by blast
  from id obtain c k' where k: "k = c # k'" and c: "is_ident_start c"
    and k': "\<forall>x\<in>set k'. is_ident_char x"
    by (cases k) (auto simp: is_identifier_def)
  let ?a = "if is_eq then CHR ''='' else CHR ''!''"
  let ?t = "ws2 @ v @ ws3"
  have op: "(if is_eq then ''=='' else ''!='') = [?a, CHR ''='']" by simp
  have nsp: "\<not> is_space c" using c space_not_ident start_is_ident by blast
  have d0: "dropWhile is_space g = c # (k' @ ws1 @ [?a, CHR ''=''] @ ?t)"
    unfolding g op k using sp nsp by (simp add: dropWhile_append2)
  have w1: "\<forall>x\<in>set ws1. \<not> is_ident_char x" using sp space_not_ident by auto
  have a_ni: "\<not> is_ident_char ?a" "\<not> is_space ?a" using operator_chars by auto
  have tk: "takeWhile is_ident_char (k' @ ws1 @ [?a, CHR ''=''] @ ?t) = k'"
    using k' w1 a_ni by (cases ws1) (simp_all add: takeWhile_append2)
  have dk: "dropWhile is_ident_char (k' @ ws1 @ [?a, CHR ''=''] @ ?t) = ws1 @ [?a, CHR ''=''] @ ?t"
    using k' w1 a_ni by (cases ws1) (simp_all add: dropWhile_append2)
  have ds: "dropWhile is_space (ws1 @ [?a, CHR ''=''] @ ?t) = ?a # CHR ''='' # ?t"
    using sp a_ni by (simp add: dropWhile_append2)
  from when_value_complete[of ws2 ws3 v] sp v obtain v' where wv: "when_value ?t = Some v'"
    by auto
  have "parse_when g = Some (k, is_eq, v')"
    unfolding parse_when_def d0 using c tk dk ds wv k by (simp add: d0)
  then show ?thesis ..
qed


lemma parse_when_grammar:
  "parse_when g = None \<longleftrightarrow> (\<forall>k is_eq v. \<not> guard_form g k is_eq v)"
proof
  assume "parse_when g = None"
  then show "\<forall>k is_eq v. \<not> guard_form g k is_eq v"
    using parse_when_complete by fastforce
next
  assume n: "\<forall>k is_eq v. \<not> guard_form g k is_eq v"
  show "parse_when g = None"
  proof (cases "parse_when g")
    case None
    then show ?thesis .
  next
    case (Some a)
    then obtain k is_eq v where "parse_when g = Some (k, is_eq, v)" by (cases a) auto
    from parse_when_sound[OF this] n show ?thesis by blast
  qed
qed

text \<open>
  C4, as amended. Let the \<^verbatim>\<open>when\<close> of the interpolated step be a non-empty string. The
  guard pattern of the source matches exactly the guards of the form \<^verbatim>\<open>IDENT (==|!=) VALUE\<close>.
  A guard that is not of this form evaluates to false, and when the guard evaluates to
  false the step is skipped: no error is raised, nothing is printed, nothing is run or
  written (the world is the one before the step) and the run goes on with the next step.
\<close>

theorem skipped_step_is_silent:
  assumes "deep_interpolate raw_step (map_of (step_ctx_of cfg)) = Some (PDict d)"
    and "dict_get d ''when'' = PStr g" and "g \<noteq> []"
    and "(\<forall>k is_eq v. \<not> guard_form g k is_eq v) \<or> \<not> eval_when (map_of (step_ctx_of cfg)) g"
  shows "\<not> eval_when (map_of (step_ctx_of cfg)) g
    \<and> exec_step pf cfg idx (PDict d) w = Some (Inr (), w)
    \<and> run_steps pf cfg idx (raw_step # rest) w = run_steps pf cfg (Suc idx) rest w
    \<and> ((\<forall>k is_eq v. \<not> guard_form g k is_eq v) \<longleftrightarrow> parse_when g = None)"
proof -
  have f: "\<not> eval_when (map_of (step_ctx_of cfg)) g"
  proof (cases "parse_when g")
    case None
    then show ?thesis by (simp add: eval_when_def)
  next
    case (Some a)
    then have "\<not> (\<forall>k is_eq v. \<not> guard_form g k is_eq v)"
      using parse_when_grammar[of g] by simp
    with assms(4) show ?thesis by blast
  qed
  with assms(2,3) have e: "exec_step pf cfg idx (PDict d) w = Some (Inr (), w)"
    by (simp add: exec_step_def)
  with assms(1) have "run_step pf cfg idx raw_step w = Some (Inr (), w)"
    by (simp add: run_step_def)
  with f e parse_when_grammar[of g] show ?thesis by simp
qed

text \<open>
  The claim C4 as stated fails: the guard \<^verbatim>\<open>{{FLAG}}\<close>, with \<^verbatim>\<open>FLAG\<close> not in the context,
  does not match the pattern, is interpolated to the empty string, and the step is run.
\<close>

theorem empty_guard_runs:
  "parse_when ''{{FLAG}}'' = None
   \<and> deep_interpolate (PStr ''{{FLAG}}'') (map_of (step_ctx_of example_cfg)) = Some (PStr [])
   \<and> map_option fst
       (run_steps example_platform example_cfg 1
          [PDict [(''name'', PStr ''gated''), (''when'', PStr ''{{FLAG}}''),
                  (''run'', PList [PStr ''echo hi''])]] example_world)
     = Some (Inr ())
   \<and> map_option (trace \<circ> snd)
       (run_steps example_platform example_cfg 1
          [PDict [(''name'', PStr ''gated''), (''when'', PStr ''{{FLAG}}''),
                  (''run'', PList [PStr ''echo hi''])]] example_world)
     = Some [Print (Banner (PStr ''gated'')),
             Spawn (PList [PStr ''/bin/bash'', PStr ''-lc'', PStr ''echo hi'']) PNone
               (Some [(''HOME'', ''/home'')])]"
  by code_simp

theorem skipped_step_is_silent_witness:
  "\<not> eval_when (map_of (step_ctx_of example_cfg)) ''OS == windows''
   \<and> exec_step example_platform example_cfg 1
       (PDict [(''name'', PStr ''win''), (''when'', PStr ''OS == windows''),
               (''run'', PList [PStr ''echo s1''])]) example_world
     = Some (Inr (), example_world)
   \<and> run_steps example_platform example_cfg 1
       [PDict [(''name'', PStr ''win''), (''when'', PStr ''OS == windows''),
               (''run'', PList [PStr ''echo {{SESSION}}''])]] example_world
     = Some (Inr (), example_world)
   \<and> exec_step example_platform example_cfg 1
       (PDict [(''when'', PStr ''OS is windows''), (''write_file'', PDict [(''path'', PStr ''/x'')])])
       example_world
     = Some (Inr (), example_world)"
proof -
  have a: "deep_interpolate
      (PDict [(''name'', PStr ''win''), (''when'', PStr ''OS == windows''),
              (''run'', PList [PStr ''echo {{SESSION}}''])]) (map_of (step_ctx_of example_cfg))
     = Some (PDict [(''name'', PStr ''win''), (''when'', PStr ''OS == windows''),
                    (''run'', PList [PStr ''echo s1''])])"
    by code_simp
  have b: "dict_get [(''name'', PStr ''win''), (''when'', PStr ''OS == windows''),
                    (''run'', PList [PStr ''echo s1''])] ''when'' = PStr ''OS == windows''"
    by (simp add: dict_get_def)
  have "\<not> eval_when (map_of (step_ctx_of example_cfg)) ''OS == windows''"
    by code_simp
  then have c: "(\<forall>k is_eq v. \<not> guard_form ''OS == windows'' k is_eq v)
           \<or> \<not> eval_when (map_of (step_ctx_of example_cfg)) ''OS == windows''"
    by blast
  have a': "deep_interpolate
      (PDict [(''when'', PStr ''OS is windows''), (''write_file'', PDict [(''path'', PStr ''/x'')])])
      (map_of (step_ctx_of example_cfg))
     = Some (PDict [(''when'', PStr ''OS is windows''),
                    (''write_file'', PDict [(''path'', PStr ''/x'')])])"
    by code_simp
  have b': "dict_get [(''when'', PStr ''OS is windows''),
                     (''write_file'', PDict [(''path'', PStr ''/x'')])] ''when''
            = PStr ''OS is windows''"
    by (simp add: dict_get_def)
  have "\<not> eval_when (map_of (step_ctx_of example_cfg)) ''OS is windows''"
    by code_simp
  then have c': "(\<forall>k is_eq v. \<not> guard_form ''OS is windows'' k is_eq v)
           \<or> \<not> eval_when (map_of (step_ctx_of example_cfg)) ''OS is windows''"
    by blast
  from skipped_step_is_silent[OF a b _ c, of example_platform 1 example_world "[]"]
       skipped_step_is_silent[OF a' b' _ c', of example_platform 1 example_world "[]"]
  show ?thesis by simp
qed

subsection \<open>Order of the steps\<close>

text \<open>
  C9. The step list is the common steps followed by the steps of the active OS, each list
  in its own order, and the loop runs it from left to right: the OS steps start, with the
  next index, in the world the common steps left, and only when none of them raised. With
  common steps \<open>a, b\<close> and OS steps \<open>c, d\<close> the rounds are those of \<open>a\<close>, \<open>b\<close>, \<open>c\<close>, \<open>d\<close>
  with the indices 1 to 4, each in the world its predecessor left.
\<close>

theorem steps_run_in_order:
  "steps_of spec os_key
     = spec_common spec @ (case map_of (spec_os spec) os_key of None \<Rightarrow> [] | Some sec \<Rightarrow> os_steps sec)
   \<and> run_steps pf cfg idx (steps_of spec os_key) w
     = and_then (run_steps pf cfg idx (spec_common spec) w)
         (run_steps pf cfg (idx + length (spec_common spec))
            (case map_of (spec_os spec) os_key of None \<Rightarrow> [] | Some sec \<Rightarrow> os_steps sec))
   \<and> (spec_common spec = [a, b] \<and> map_of (spec_os spec) os_key = Some sec \<and> os_steps sec = [c, d]
      \<longrightarrow> steps_of spec os_key = [a, b, c, d]
        \<and> run_steps pf cfg 1 (steps_of spec os_key) w
          = and_then (run_step pf cfg 1 a w) (\<lambda>w1.
            and_then (run_step pf cfg 2 b w1) (\<lambda>w2.
            and_then (run_step pf cfg 3 c w2) (\<lambda>w3.
            and_then (run_step pf cfg 4 d w3) (\<lambda>w4. Some (Inr (), w4))))))"
proof (intro conjI impI)
  show "steps_of spec os_key
     = spec_common spec @ (case map_of (spec_os spec) os_key of None \<Rightarrow> [] | Some sec \<Rightarrow> os_steps sec)"
    by (simp add: steps_of_def)
  show "run_steps pf cfg idx (steps_of spec os_key) w
     = and_then (run_steps pf cfg idx (spec_common spec) w)
         (run_steps pf cfg (idx + length (spec_common spec))
            (case map_of (spec_os spec) os_key of None \<Rightarrow> [] | Some sec \<Rightarrow> os_steps sec))"
    unfolding steps_of_def by (rule run_steps_append)
next
  assume h: "spec_common spec = [a, b] \<and> map_of (spec_os spec) os_key = Some sec \<and> os_steps sec = [c, d]"
  then show l: "steps_of spec os_key = [a, b, c, d]"
    by (simp add: steps_of_def)
  show "run_steps pf cfg 1 (steps_of spec os_key) w
          = and_then (run_step pf cfg 1 a w) (\<lambda>w1.
            and_then (run_step pf cfg 2 b w1) (\<lambda>w2.
            and_then (run_step pf cfg 3 c w2) (\<lambda>w3.
            and_then (run_step pf cfg 4 d w3) (\<lambda>w4. Some (Inr (), w4)))))"
    unfolding l by (simp add: run_steps_fun numeral_eq_Suc)
qed

theorem steps_run_in_order_witness:
  "steps_of order_spec ''ubuntu''
     = [echo_step ''Common step 1'' [''echo common1''], echo_step ''Common step 2'' [''echo common2''],
        echo_step ''Ubuntu step 1'' [''echo ubuntu1''], echo_step ''Ubuntu step 2'' [''echo ubuntu2'']]
   \<and> run_steps example_platform example_cfg 1 (steps_of order_spec ''ubuntu'') example_world
     = and_then (run_step example_platform example_cfg 1
                   (echo_step ''Common step 1'' [''echo common1'']) example_world) (\<lambda>w1.
       and_then (run_step example_platform example_cfg 2
                   (echo_step ''Common step 2'' [''echo common2'']) w1) (\<lambda>w2.
       and_then (run_step example_platform example_cfg 3
                   (echo_step ''Ubuntu step 1'' [''echo ubuntu1'']) w2) (\<lambda>w3.
       and_then (run_step example_platform example_cfg 4
                   (echo_step ''Ubuntu step 2'' [''echo ubuntu2'']) w3) (\<lambda>w4. Some (Inr (), w4)))))
   \<and> map_option (\<lambda>r. (fst r, spawned (trace (snd r))))
       (run_spec example_platform ''spec.yaml'' (Some order_spec) False [] example_world)
     = Some (Inr (),
         [PList [PStr ''/bin/bash'', PStr ''-lc'', PStr ''echo common1''],
          PList [PStr ''/bin/bash'', PStr ''-lc'', PStr ''echo common2''],
          PList [PStr ''/bin/bash'', PStr ''-lc'', PStr ''echo ubuntu1''],
          PList [PStr ''/bin/bash'', PStr ''-lc'', PStr ''echo ubuntu2'']])"
proof -
  have h: "spec_common order_spec
        = [echo_step ''Common step 1'' [''echo common1''], echo_step ''Common step 2'' [''echo common2'']]
     \<and> map_of (spec_os order_spec) ''ubuntu''
        = Some \<lparr>os_env = [], os_steps = [echo_step ''Ubuntu step 1'' [''echo ubuntu1''],
                                          echo_step ''Ubuntu step 2'' [''echo ubuntu2'']]\<rparr>
     \<and> os_steps \<lparr>os_env = [], os_steps = [echo_step ''Ubuntu step 1'' [''echo ubuntu1''],
                                          echo_step ''Ubuntu step 2'' [''echo ubuntu2'']]\<rparr>
        = [echo_step ''Ubuntu step 1'' [''echo ubuntu1''], echo_step ''Ubuntu step 2'' [''echo ubuntu2'']]"
    by (simp add: order_spec_def)
  have r: "map_option (\<lambda>r. (fst r, spawned (trace (snd r))))
       (run_spec example_platform ''spec.yaml'' (Some order_spec) False [] example_world)
     = Some (Inr (),
         [PList [PStr ''/bin/bash'', PStr ''-lc'', PStr ''echo common1''],
          PList [PStr ''/bin/bash'', PStr ''-lc'', PStr ''echo common2''],
          PList [PStr ''/bin/bash'', PStr ''-lc'', PStr ''echo ubuntu1''],
          PList [PStr ''/bin/bash'', PStr ''-lc'', PStr ''echo ubuntu2'']])"
    by code_simp
  from steps_run_in_order[of order_spec "''ubuntu''" example_platform example_cfg 1 example_world
      "echo_step ''Common step 1'' [''echo common1'']" "echo_step ''Common step 2'' [''echo common2'']"
      "\<lparr>os_env = [], os_steps = [echo_step ''Ubuntu step 1'' [''echo ubuntu1''],
                                          echo_step ''Ubuntu step 2'' [''echo ubuntu2'']]\<rparr>"
      "echo_step ''Ubuntu step 1'' [''echo ubuntu1'']" "echo_step ''Ubuntu step 2'' [''echo ubuntu2'']"]
    h
  have s: "steps_of order_spec ''ubuntu''
     = [echo_step ''Common step 1'' [''echo common1''], echo_step ''Common step 2'' [''echo common2''],
        echo_step ''Ubuntu step 1'' [''echo ubuntu1''], echo_step ''Ubuntu step 2'' [''echo ubuntu2'']]"
    and e: "run_steps example_platform example_cfg 1 (steps_of order_spec ''ubuntu'') example_world
     = and_then (run_step example_platform example_cfg 1
                   (echo_step ''Common step 1'' [''echo common1'']) example_world) (\<lambda>w1.
       and_then (run_step example_platform example_cfg 2
                   (echo_step ''Common step 2'' [''echo common2'']) w1) (\<lambda>w2.
       and_then (run_step example_platform example_cfg 3
                   (echo_step ''Ubuntu step 1'' [''echo ubuntu1'']) w2) (\<lambda>w3.
       and_then (run_step example_platform example_cfg 4
                   (echo_step ''Ubuntu step 2'' [''echo ubuntu2'']) w3) (\<lambda>w4. Some (Inr (), w4)))))"
    by blast+
  from s e r show ?thesis by blast
qed

subsection \<open>One action for each step\<close>

lemma io_bind_trace:
  assumes "\<And>w. trace (snd (m w)) = trace w" and "\<And>x w. trace (snd (f x w)) = trace w"
  shows "trace (snd (io_bind m f w)) = trace w"
proof (cases "m w")
  case (Pair r w1)
  with assms(1)[of w] have t: "trace w1 = trace w" by simp
  show ?thesis
  proof (cases r)
    case (Inl e)
    with Pair t show ?thesis by (simp add: io_bind_def)
  next
    case (Inr x)
    with Pair t assms(2)[of x w1] show ?thesis by (simp add: io_bind_def)
  qed
qed

lemma ensure_parent_trace: "trace (snd (ensure_parent p w)) = trace w"
  by (simp add: ensure_parent_def mkdir_parents_def split: sum.splits)

lemma read_text_trace: "trace (snd (read_text p w)) = trace w"
  by (simp add: read_text_def split: option.splits node.splits)

lemma write_str_trace: "trace (snd (write_str pf p t w)) = trace w"
  by (simp add: write_str_def)

lemma write_text_trace: "trace (snd (write_text pf p data w)) = trace w"
  by (simp add: write_text_def write_str_trace split: pyval.splits)

lemma try_chmod_trace: "trace (snd (try_chmod pf p mode w)) = trace w"
  by (simp add: try_chmod_def split: option.splits)

lemma write_file_trace: "trace (snd (write_file pf path content mode append_flag w)) = trace w"
proof (cases path)
  case (PStr s)
  have body: "trace (snd ((if append_flag \<and> path_exists w1 p
             then io_bind (read_text p) (\<lambda>old.
                  io_bind (io_lift (str_concat old content)) (write_str pf p)) w1
             else write_text pf p content w1))) = trace w1" for w1 p
    by (auto intro!: io_bind_trace simp: read_text_trace write_text_trace write_str_trace
          io_lift_def)
  have tail: "trace (snd ((if truthy mode then try_chmod pf p mode else io_return ()) w2)) = trace w2"
    for w2 p
    by (simp add: try_chmod_trace io_return_def)
  show ?thesis
    unfolding PStr write_file_def Let_def pyval.case
    by (intro io_bind_trace ensure_parent_trace body tail)
qed (simp_all add: write_file_def)

lemma write_file_action_spawns:
  "filter is_spawn (trace (snd (write_file_action pf cfg wfile w))) = filter is_spawn (trace w)"
  by (auto simp: write_file_action_def io_raise_def io_print_def write_file_trace Let_def
           split: pyval.splits option.splits)

lemma lookup_after_update:
  "k' \<noteq> k \<Longrightarrow> map_of (AList.update k v d) k' = map_of d k'"
  by (simp add: update_conv')

text \<open>
  C10. A step with a \<^verbatim>\<open>write_file\<close> block does the \<^verbatim>\<open>write_file\<close> action, after its banner,
  and nothing else: no process is started. Without \<^verbatim>\<open>write_file\<close> and with a
  \<^verbatim>\<open>clone_repos\<close> block it does the \<^verbatim>\<open>clone_repos\<close> action and nothing else. In both cases
  the step does the same whatever its \<^verbatim>\<open>run\<close> list is.
\<close>

theorem one_action_by_precedence:
  "(map_of d ''write_file'' = Some wfile \<longrightarrow>
      step_body pf cfg idx d w
        = (case step_env_of cfg d of
             Inl e \<Rightarrow>
               Some (Inl e, snd (io_print (Banner (py_or (dict_get d ''name'')
                                                    (PStr (''step-'' @ dec_of_nat idx)))) w))
           | Inr step_env \<Rightarrow>
               Some (write_file_action pf cfg wfile
                       (snd (io_print (Banner (py_or (dict_get d ''name'')
                                                (PStr (''step-'' @ dec_of_nat idx)))) w))))
      \<and> (\<forall>res w'. step_body pf cfg idx d w = Some (res, w') \<longrightarrow>
            filter is_spawn (trace w') = filter is_spawn (trace w)))
   \<and> (map_of d ''write_file'' = None \<and> map_of d ''clone_repos'' = Some cr \<longrightarrow>
      step_body pf cfg idx d w
        = (case step_env_of cfg d of
             Inl e \<Rightarrow>
               Some (Inl e, snd (io_print (Banner (py_or (dict_get d ''name'')
                                                    (PStr (''step-'' @ dec_of_nat idx)))) w))
           | Inr step_env \<Rightarrow>
               (case clone_repos_action pf cfg
                       (truthy (dict_get_or d ''continue_on_error'' (PBool False)))
                       (py_or (dict_get d ''shell'') (default_shell cfg)) step_env cr of
                  None \<Rightarrow> None
                | Some act \<Rightarrow>
                    Some (act (snd (io_print (Banner (py_or (dict_get d ''name'')
                                                 (PStr (''step-'' @ dec_of_nat idx)))) w))))))
   \<and> (map_of d ''write_file'' \<noteq> None \<or> map_of d ''clone_repos'' \<noteq> None \<longrightarrow>
      exec_step pf cfg idx (PDict (AList.update ''run'' r d)) w = exec_step pf cfg idx (PDict d) w)"
proof (intro conjI impI allI)
  assume h: "map_of d ''write_file'' = Some wfile"
  then show eq: "step_body pf cfg idx d w
        = (case step_env_of cfg d of
             Inl e \<Rightarrow>
               Some (Inl e, snd (io_print (Banner (py_or (dict_get d ''name'')
                                                    (PStr (''step-'' @ dec_of_nat idx)))) w))
           | Inr step_env \<Rightarrow>
               Some (write_file_action pf cfg wfile
                       (snd (io_print (Banner (py_or (dict_get d ''name'')
                                                (PStr (''step-'' @ dec_of_nat idx)))) w))))"
    by (simp add: step_body_def Let_def split: sum.splits)
  fix res w'
  assume sb: "step_body pf cfg idx d w = Some (res, w')"
  let ?w1 = "snd (io_print (Banner (py_or (dict_get d ''name'')
                                     (PStr (''step-'' @ dec_of_nat idx)))) w)"
  have t1: "filter is_spawn (trace ?w1) = filter is_spawn (trace w)"
    by (simp add: io_print_def)
  show "filter is_spawn (trace w') = filter is_spawn (trace w)"
  proof (cases "step_env_of cfg d")
    case (Inl e)
    with eq sb have "w' = ?w1" by simp
    with t1 show ?thesis by simp
  next
    case (Inr x)
    with eq sb have "write_file_action pf cfg wfile ?w1 = (res, w')" by simp
    then have "w' = snd (write_file_action pf cfg wfile ?w1)" by simp
    with write_file_action_spawns[of pf cfg wfile ?w1] t1 show ?thesis by simp
  qed
next
  assume "map_of d ''write_file'' = None \<and> map_of d ''clone_repos'' = Some cr"
  then show "step_body pf cfg idx d w
        = (case step_env_of cfg d of
             Inl e \<Rightarrow>
               Some (Inl e, snd (io_print (Banner (py_or (dict_get d ''name'')
                                                    (PStr (''step-'' @ dec_of_nat idx)))) w))
           | Inr step_env \<Rightarrow>
               (case clone_repos_action pf cfg
                       (truthy (dict_get_or d ''continue_on_error'' (PBool False)))
                       (py_or (dict_get d ''shell'') (default_shell cfg)) step_env cr of
                  None \<Rightarrow> None
                | Some act \<Rightarrow>
                    Some (act (snd (io_print (Banner (py_or (dict_get d ''name'')
                                                 (PStr (''step-'' @ dec_of_nat idx)))) w)))))"
    by (simp add: step_body_def Let_def split: sum.splits option.splits)
next
  assume h: "map_of d ''write_file'' \<noteq> None \<or> map_of d ''clone_repos'' \<noteq> None"
  have same: "dict_get (AList.update ''run'' r d) k = dict_get d k"
    "dict_get_or (AList.update ''run'' r d) k dflt = dict_get_or d k dflt"
    "map_of (AList.update ''run'' r d) k = map_of d k" if "k \<noteq> ''run''" for k dflt
    using that by (simp_all add: dict_get_def dict_get_or_def lookup_after_update)
  have env: "step_env_of cfg (AList.update ''run'' r d) = step_env_of cfg d"
    by (simp add: step_env_of_def same)
  have body: "step_body pf cfg idx (AList.update ''run'' r d) w' = step_body pf cfg idx d w'" for w'
    using h by (auto simp: step_body_def Let_def same env split: sum.splits option.splits)
  show "exec_step pf cfg idx (PDict (AList.update ''run'' r d)) w = exec_step pf cfg idx (PDict d) w"
    by (simp add: exec_step_def Let_def same body split: pyval.splits)
qed

theorem one_action_by_precedence_witness:
  "exec_step example_platform example_cfg 1
     (PDict (AList.update ''run'' (PList [PStr ''echo other''])
        [(''name'', PStr ''both''),
         (''write_file'', PDict [(''path'', PStr ''/home/out.txt''), (''content'', PStr ''hi'')]),
         (''run'', PList [PStr ''echo ignored''])])) example_world
     = exec_step example_platform example_cfg 1
         (PDict [(''name'', PStr ''both''),
                 (''write_file'', PDict [(''path'', PStr ''/home/out.txt''), (''content'', PStr ''hi'')]),
                 (''run'', PList [PStr ''echo ignored''])]) example_world
   \<and> map_option (\<lambda>r. (fst r, trace (snd r), nodes (snd r) [''home'', ''out.txt'']))
       (step_body example_platform example_cfg 1
          [(''name'', PStr ''both''),
           (''write_file'', PDict [(''path'', PStr ''/home/out.txt''), (''content'', PStr ''hi'')]),
           (''run'', PList [PStr ''echo ignored''])] example_world)
     = Some (Inr (), [Print (Banner (PStr ''both''))], Some (File ''hi''))
   \<and> map_option (\<lambda>r. (fst r, spawned (trace (snd r))))
       (step_body example_platform example_cfg 1
          [(''clone_repos'', PDict [(''dest_unix'', PStr ''/home/dev/src''),
                                    (''repos'', PList [PDict [(''name'', PStr ''acme/svc'')]])]),
           (''run'', PList [PStr ''echo ignored''])] example_world)
     = Some (Inr (),
         [PList [PStr ''git'', PStr ''clone'', PStr ''https://github.com/acme/svc.git'',
                 PStr ''/home/dev/src/acme/svc'']])"
proof -
  let ?d = "[(''name'', PStr ''both''),
         (''write_file'', PDict [(''path'', PStr ''/home/out.txt''), (''content'', PStr ''hi'')]),
         (''run'', PList [PStr ''echo ignored''])]"
  have h: "map_of ?d ''write_file'' \<noteq> None \<or> map_of ?d ''clone_repos'' \<noteq> None"
    by simp
  from one_action_by_precedence[of ?d _ example_platform example_cfg 1 example_world _
      "PList [PStr ''echo other'']"] h
  have a: "exec_step example_platform example_cfg 1
     (PDict (AList.update ''run'' (PList [PStr ''echo other'']) ?d)) example_world
     = exec_step example_platform example_cfg 1 (PDict ?d) example_world"
    by blast
  have b: "map_option (\<lambda>r. (fst r, trace (snd r), nodes (snd r) [''home'', ''out.txt'']))
       (step_body example_platform example_cfg 1 ?d example_world)
     = Some (Inr (), [Print (Banner (PStr ''both''))], Some (File ''hi''))"
    by code_simp
  have c: "map_option (\<lambda>r. (fst r, spawned (trace (snd r))))
       (step_body example_platform example_cfg 1
          [(''clone_repos'', PDict [(''dest_unix'', PStr ''/home/dev/src''),
                                    (''repos'', PList [PDict [(''name'', PStr ''acme/svc'')]])]),
           (''run'', PList [PStr ''echo ignored''])] example_world)
     = Some (Inr (),
         [PList [PStr ''git'', PStr ''clone'', PStr ''https://github.com/acme/svc.git'',
                 PStr ''/home/dev/src/acme/svc'']])"
    by code_simp
  from a b c show ?thesis by blast
qed

subsection \<open>Failing items\<close>











end
